theory Spec2Isabelle
  imports Complex_Main "HOL-Library.Multiset"
begin

section \<open>PolyTree: data model\<close>

text \<open>
  The model follows \<open>src/equadratures/polytree.py\<close>. Python names that start with an
  underscore lose it (\<open>_splitter\<close> is \<open>splitter\<close>, \<open>_predict\<close> is \<open>predict_node\<close>).
  Array entries are idealised as real numbers; the one place where the source divides by
  a count that can be zero keeps numpy's non-finite results (type \<open>float64\<close>).
\<close>

datatype error =
    ValueError | IndexError | KeyError | TypeError | AssertionError
  | IncorrectSearchType | FitFailure

text \<open>A two-dimensional numpy array of shape \<open>(length rows, ncols)\<close>.\<close>

record ndarray =
  ncols :: nat
  rows :: "real list list"

definition wf_ndarray :: "ndarray \<Rightarrow> bool" where
  "wf_ndarray X = list_all (\<lambda>r. length r = ncols X) (rows X)"

text \<open>Results of numpy scalar arithmetic that may leave the finite numbers.\<close>

datatype float64 = Fin real | PInf | NInf | NaN

fun float_lt :: "float64 \<Rightarrow> float64 \<Rightarrow> bool" where
  "float_lt (Fin a) (Fin b) = (a < b)"
| "float_lt (Fin a) PInf = True"
| "float_lt NInf (Fin b) = True"
| "float_lt NInf PInf = True"
| "float_lt _ _ = False"

fun float_add :: "float64 \<Rightarrow> float64 \<Rightarrow> float64" where
  "float_add NaN _ = NaN"
| "float_add _ NaN = NaN"
| "float_add (Fin a) (Fin b) = Fin (a + b)"
| "float_add PInf NInf = NaN"
| "float_add NInf PInf = NaN"
| "float_add PInf _ = PInf"
| "float_add _ PInf = PInf"
| "float_add NInf _ = NInf"
| "float_add _ NInf = NInf"

text \<open>\<open>n * x\<close> for a Python int \<open>n = len(...)\<close> and a numpy float \<open>x\<close>.\<close>

fun len_times_float :: "nat \<Rightarrow> float64 \<Rightarrow> float64" where
  "len_times_float n (Fin a) = Fin (real n * a)"
| "len_times_float n PInf = (if n = 0 then NaN else PInf)"
| "len_times_float n NInf = (if n = 0 then NaN else NInf)"
| "len_times_float n NaN = NaN"

text \<open>\<open>x / n\<close> for a numpy float \<open>x\<close> and a Python int \<open>n\<close>: division by zero does not raise.\<close>

fun float_div_len :: "float64 \<Rightarrow> nat \<Rightarrow> float64" where
  "float_div_len (Fin a) n =
     (if n = 0 then (if a = 0 then NaN else if 0 < a then PInf else NInf)
      else Fin (a / real n))"
| "float_div_len PInf n = PInf"
| "float_div_len NInf n = NInf"
| "float_div_len NaN n = NaN"

text \<open>The constructor arguments of \<open>PolyTree.__init__\<close>.\<close>

record config =
  max_depth :: int
  min_samples_leaf :: int
  order :: int
  basis :: string
  search :: string
  samples :: int
  logging :: bool

text \<open>
  The classes \<open>Parameter\<close>, \<open>Basis\<close> and \<open>Poly\<close> are imported by the source and are not
  part of it, and neither is numpy. They are parameters of the model: \<open>Poly\<close> stands for
  building the parameters from the per-feature bounds, the basis, the \<open>Poly\<close> object and
  \<open>set_model\<close>; \<open>get_polyfit\<close> evaluates a fitted polynomial at the rows of an array and
  returns the flattened result; \<open>np_linspace\<close> is \<open>np.linspace(start, stop, num=num)\<close>,
  numpy's evenly spaced values over an interval, whose entries are rounded in floating
  point and are therefore not computed by the model.
\<close>

record 'p collaborators =
  Poly :: "int \<Rightarrow> string \<Rightarrow> (real \<times> real) list \<Rightarrow> ndarray \<Rightarrow> real list \<Rightarrow> error + 'p"
  get_polyfit :: "'p \<Rightarrow> ndarray \<Rightarrow> error + real list"
  np_linspace :: "real \<Rightarrow> real \<Rightarrow> int \<Rightarrow> error + real list"

datatype direction = LEFT | RIGHT

datatype 'p event =
    BestSplit nat real float64 'p 'p
  | TrySplit nat real float64 'p 'p
  | UP
  | DOWN direction "nat option" "real option"

text \<open>The mutable state of a build: the \<open>container\<close> counter and \<open>self.log\<close>.\<close>

record 'p build_state =
  index_node_global :: nat
  self_log :: "'p event list"

text \<open>The node dictionary; \<open>data = None\<close> stands for the deleted key.\<close>

record 'p node_info =
  name :: string
  index :: nat
  loss :: float64
  poly :: 'p
  data :: "(ndarray \<times> real list) option"
  n_samples :: nat
  j_feature :: "nat option"
  threshold :: "real option"
  depth :: nat

datatype 'p node =
  Node (info: "'p node_info") (left: "'p node option") (right: "'p node option")

section \<open>Array primitives\<close>

fun py_min :: "real list \<Rightarrow> error + real" where
  "py_min [] = Inl ValueError"
| "py_min (x # xs) = Inr (fold min xs x)"

fun py_max :: "real list \<Rightarrow> error + real" where
  "py_max [] = Inl ValueError"
| "py_max (x # xs) = Inr (fold max xs x)"

text \<open>\<open>X[:, j]\<close> for \<open>j\<close> in range.\<close>

definition column :: "ndarray \<Rightarrow> nat \<Rightarrow> real list" where
  "column X j = map (\<lambda>r. r ! j) (rows X)"

text \<open>\<open>X[idx]\<close> with indices taken from \<open>range(len(X))\<close>, and \<open>y[idx]\<close>, which raises
  when an index is beyond \<open>y\<close>.\<close>

definition take_rows :: "ndarray \<Rightarrow> nat list \<Rightarrow> ndarray" where
  "take_rows X idx = X\<lparr>rows := map (\<lambda>i. rows X ! i) idx\<rparr>"

definition take_entries :: "real list \<Rightarrow> nat list \<Rightarrow> error + real list" where
  "take_entries y idx =
     (if list_all (\<lambda>i. i < length y) idx then Inr (map (\<lambda>i. y ! i) idx)
      else Inl IndexError)"

text \<open>\<open>y - p\<close> for one-dimensional arrays, with numpy's broadcasting.\<close>

definition np_sub :: "real list \<Rightarrow> real list \<Rightarrow> error + real list" where
  "np_sub ys ps =
     (if length ys = length ps then Inr (map2 (\<lambda>a b. a - b) ys ps)
      else if length ps = 1 then Inr (map (\<lambda>a. a - hd ps) ys)
      else if length ys = 1 then Inr (map (\<lambda>b. hd ys - b) ps)
      else Inl ValueError)"

section \<open>Splitting the rows\<close>

definition split_data ::
  "nat \<Rightarrow> real \<Rightarrow> ndarray \<Rightarrow> real list
     \<Rightarrow> error + ((ndarray \<times> real list) \<times> (ndarray \<times> real list))" where
  "split_data j t X y =
     (if ncols X \<le> j then Inl IndexError
      else
        let n = length (rows X);
            idx_left = filter (\<lambda>i. column X j ! i \<le> t) [0..<n];
            idx_right = filter (\<lambda>i. i \<notin> set idx_left) [0..<n]
        in
          if length idx_left + length idx_right \<noteq> n then Inl AssertionError
          else
            (case take_entries y idx_left of
               Inl e \<Rightarrow> Inl e
             | Inr y_left \<Rightarrow>
                 (case take_entries y idx_right of
                    Inl e \<Rightarrow> Inl e
                  | Inr y_right \<Rightarrow>
                      Inr ((take_rows X idx_left, y_left), (take_rows X idx_right, y_right)))))"

section \<open>Fitting one polynomial\<close>

text \<open>The loop over the features in \<open>_fit_poly\<close>: \<open>min(values)\<close> raises on an empty
  column, and a constant column gets its range widened by \<open>0.01\<close> on both sides.\<close>

fun bounds_loop :: "ndarray \<Rightarrow> nat list \<Rightarrow> error + (real \<times> real) list" where
  "bounds_loop X [] = Inr []"
| "bounds_loop X (dimension # ds) =
     (case py_min (column X dimension) of
        Inl e \<Rightarrow> Inl e
      | Inr values_min \<Rightarrow>
          (case py_max (column X dimension) of
             Inl e \<Rightarrow> Inl e
           | Inr values_max \<Rightarrow>
               (case bounds_loop X ds of
                  Inl e \<Rightarrow> Inl e
                | Inr ps \<Rightarrow>
                    Inr ((if values_min = values_max
                          then (values_min - 1 / 100, values_max + 1 / 100)
                          else (values_min, values_max)) # ps))))"

definition count_fit :: "'p build_state \<Rightarrow> 'p build_state" where
  "count_fit st = st\<lparr>index_node_global := index_node_global st + 1\<rparr>"

definition append_log :: "'p event \<Rightarrow> 'p build_state \<Rightarrow> 'p build_state" where
  "append_log ev st = st\<lparr>self_log := self_log st @ [ev]\<rparr>"

definition fit_poly ::
  "'p collaborators \<Rightarrow> config \<Rightarrow> ndarray \<Rightarrow> real list \<Rightarrow> 'p build_state
     \<Rightarrow> error + ((float64 \<times> 'p) \<times> 'p build_state)" where
  "fit_poly env cfg X y st =
     (case bounds_loop X [0..<ncols X] of
        Inl e \<Rightarrow> Inl e
      | Inr myParameters \<Rightarrow>
          (case Poly env (order cfg) (basis cfg) myParameters X y of
             Inl e \<Rightarrow> Inl e
           | Inr p \<Rightarrow>
               (case get_polyfit env p X of
                  Inl e \<Rightarrow> Inl e
                | Inr fitted \<Rightarrow>
                    (case np_sub y fitted of
                       Inl e \<Rightarrow> Inl e
                     | Inr r \<Rightarrow>
                         Inr ((float_div_len (Fin (sum_list (map (\<lambda>v. v * v) r)))
                                 (length (rows X)), p),
                              count_fit st)))))"

section \<open>Split search\<close>

text \<open>The local variables of \<open>_splitter\<close> that the loops update; \<open>result_N\<close> is the
  entry \<open>N\<close> of the returned dictionary.\<close>

record 'p split_result =
  did_split :: bool
  loss_best :: float64
  polys_best :: "('p \<times> 'p) option"
  data_best :: "((ndarray \<times> real list) \<times> (ndarray \<times> real list)) option"
  j_feature_best :: "nat option"
  threshold_best :: "real option"
  result_N :: nat

definition threshold_search ::
  "'p collaborators \<Rightarrow> config \<Rightarrow> ndarray \<Rightarrow> nat \<Rightarrow> error + real list" where
  "threshold_search env cfg X j =
     (if search cfg = ''exhaustive'' then Inr (column X j)
      else if search cfg = ''uniform'' then
        (let num = (if int (length (column X j)) < samples cfg
                    then int (length (column X j)) else samples cfg)
         in case py_min (column X j) of
              Inl e \<Rightarrow> Inl e
            | Inr lo \<Rightarrow>
                (case py_max (column X j) of
                   Inl e \<Rightarrow> Inl e
                 | Inr hi \<Rightarrow> np_linspace env lo hi num))
      else Inl IncorrectSearchType)"

text \<open>\<open>np.sort(threshold_search)\<close>: the thresholds in the order the inner loop visits
  them.\<close>

definition sorted_threshold_search ::
  "'p collaborators \<Rightarrow> config \<Rightarrow> ndarray \<Rightarrow> nat \<Rightarrow> error + real list" where
  "sorted_threshold_search env cfg X j =
     (case threshold_search env cfg X j of
        Inl e \<Rightarrow> Inl e
      | Inr ts \<Rightarrow> Inr (sort ts))"

text \<open>The body of the inner loop, for one threshold.\<close>

definition try_threshold ::
  "'p collaborators \<Rightarrow> config \<Rightarrow> ndarray \<Rightarrow> real list \<Rightarrow> nat \<Rightarrow> real
     \<Rightarrow> 'p split_result \<times> 'p build_state
     \<Rightarrow> error + ('p split_result \<times> 'p build_state)" where
  "try_threshold env cfg X y j t acc =
     (case acc of (best, st) \<Rightarrow>
        (case split_data j t X y of
           Inl e \<Rightarrow> Inl e
         | Inr ((X_left, y_left), (X_right, y_right)) \<Rightarrow>
             let N_left = length (rows X_left); N_right = length (rows X_right) in
             if \<not> (min_samples_leaf cfg \<le> int N_left \<and> min_samples_leaf cfg \<le> int N_right)
             then Inr (best, st)
             else
               (case fit_poly env cfg X_left y_left st of
                  Inl e \<Rightarrow> Inl e
                | Inr ((loss_left, poly_left), st1) \<Rightarrow>
                    (case fit_poly env cfg X_right y_right st1 of
                       Inl e \<Rightarrow> Inl e
                     | Inr ((loss_right, poly_right), st2) \<Rightarrow>
                         let loss_split =
                               float_div_len
                                 (float_add (len_times_float N_left loss_left)
                                    (len_times_float N_right loss_right))
                                 (length (rows X))
                         in
                           if float_lt loss_split (loss_best best) then
                             Inr (best\<lparr>did_split := True,
                                       loss_best := loss_split,
                                       polys_best := Some (poly_left, poly_right),
                                       data_best := Some ((X_left, y_left), (X_right, y_right)),
                                       j_feature_best := Some j,
                                       threshold_best := Some t\<rparr>,
                                  if logging cfg
                                  then append_log (BestSplit j t loss_split poly_left poly_right) st2
                                  else st2)
                           else
                             Inr (best,
                                  if logging cfg
                                  then append_log (TrySplit j t loss_split poly_left poly_right) st2
                                  else st2)))))"

fun threshold_loop ::
  "'p collaborators \<Rightarrow> config \<Rightarrow> ndarray \<Rightarrow> real list \<Rightarrow> nat \<Rightarrow> real list
     \<Rightarrow> 'p split_result \<times> 'p build_state
     \<Rightarrow> error + ('p split_result \<times> 'p build_state)" where
  "threshold_loop env cfg X y j [] acc = Inr acc"
| "threshold_loop env cfg X y j (t # ts) acc =
     (case try_threshold env cfg X y j t acc of
        Inl e \<Rightarrow> Inl e
      | Inr acc' \<Rightarrow> threshold_loop env cfg X y j ts acc')"

fun feature_loop ::
  "'p collaborators \<Rightarrow> config \<Rightarrow> ndarray \<Rightarrow> real list \<Rightarrow> nat list
     \<Rightarrow> 'p split_result \<times> 'p build_state
     \<Rightarrow> error + ('p split_result \<times> 'p build_state)" where
  "feature_loop env cfg X y [] acc = Inr acc"
| "feature_loop env cfg X y (j # js) acc =
     (case sorted_threshold_search env cfg X j of
        Inl e \<Rightarrow> Inl e
      | Inr ts \<Rightarrow>
          (case threshold_loop env cfg X y j ts acc of
             Inl e \<Rightarrow> Inl e
           | Inr acc' \<Rightarrow> feature_loop env cfg X y js acc'))"

definition no_split :: "'p node \<Rightarrow> nat \<Rightarrow> 'p split_result" where
  "no_split nd n =
     \<lparr>did_split = False, loss_best = loss (info nd), polys_best = None, data_best = None,
      j_feature_best = None, threshold_best = None, result_N = n\<rparr>"

definition splitter ::
  "'p collaborators \<Rightarrow> config \<Rightarrow> 'p node \<Rightarrow> 'p build_state
     \<Rightarrow> error + ('p split_result \<times> 'p build_state)" where
  "splitter env cfg nd st =
     (case data (info nd) of
        None \<Rightarrow> Inl KeyError
      | Some (X, y) \<Rightarrow>
          if 0 \<le> int (depth (info nd)) \<and> int (depth (info nd)) < max_depth cfg
          then feature_loop env cfg X y [0..<ncols X] (no_split nd (length (rows X)), st)
          else Inr (no_split nd (length (rows X)), st))"

section \<open>Building the tree\<close>

definition create_node ::
  "'p collaborators \<Rightarrow> config \<Rightarrow> ndarray \<Rightarrow> real list \<Rightarrow> nat \<Rightarrow> 'p build_state
     \<Rightarrow> error + ('p node \<times> 'p build_state)" where
  "create_node env cfg X y dep st =
     (case fit_poly env cfg X y st of
        Inl e \<Rightarrow> Inl e
      | Inr ((poly_loss, p), st1) \<Rightarrow>
          Inr (Node \<lparr>name = ''node'', index = index_node_global st1, loss = poly_loss,
                     poly = p, data = Some (X, y), n_samples = length (rows X),
                     j_feature = None, threshold = None, depth = dep\<rparr> None None,
               st1\<lparr>index_node_global := index_node_global st1 + 1\<rparr>))"

text \<open>Lines 210 to 221 of the source: the split is stored in the node, its data are
  deleted, both children are created, and each child gets the polynomial that split
  search had fitted. The children are returned beside the node, to be traversed.\<close>

definition create_children ::
  "'p collaborators \<Rightarrow> config \<Rightarrow> 'p node \<Rightarrow> 'p split_result \<Rightarrow> 'p build_state
     \<Rightarrow> error + (('p node_info \<times> 'p node \<times> 'p node) \<times> 'p build_state)" where
  "create_children env cfg nd result st =
     (case data_best result of
        None \<Rightarrow> Inl TypeError
      | Some ((X_left, y_left), (X_right, y_right)) \<Rightarrow>
          (case polys_best result of
             None \<Rightarrow> Inl TypeError
           | Some (poly_left, poly_right) \<Rightarrow>
               (case create_node env cfg X_left y_left (depth (info nd) + 1) st of
                  Inl e \<Rightarrow> Inl e
                | Inr (l, st1) \<Rightarrow>
                    (case create_node env cfg X_right y_right (depth (info nd) + 1) st1 of
                       Inl e \<Rightarrow> Inl e
                     | Inr (r, st2) \<Rightarrow>
                         Inr (((info nd)\<lparr>j_feature := j_feature_best result,
                                         threshold := threshold_best result,
                                         data := None\<rparr>,
                               Node ((info l)\<lparr>poly := poly_left\<rparr>) (left l) (right l),
                               Node ((info r)\<lparr>poly := poly_right\<rparr>) (left r) (right r)),
                              st2)))))"

function split_traverse_node ::
  "'p collaborators \<Rightarrow> config \<Rightarrow> 'p node \<Rightarrow> 'p build_state
     \<Rightarrow> error + ('p node \<times> 'p build_state)" where
  "split_traverse_node env cfg nd st =
     (case splitter env cfg nd st of
        Inl e \<Rightarrow> Inl e
      | Inr (result, st1) \<Rightarrow>
          if \<not> did_split result then Inr (nd, append_log UP st1)
          else
            (case create_children env cfg nd result st1 of
               Inl e \<Rightarrow> Inl e
             | Inr ((nd_info, l, r), st2) \<Rightarrow>
                 (case split_traverse_node env cfg l
                         (append_log (DOWN LEFT (j_feature_best result) (threshold_best result)) st2) of
                    Inl e \<Rightarrow> Inl e
                  | Inr (l', st3) \<Rightarrow>
                      (case split_traverse_node env cfg r
                              (append_log (DOWN RIGHT (j_feature_best result) (threshold_best result)) st3) of
                         Inl e \<Rightarrow> Inl e
                       | Inr (r', st4) \<Rightarrow>
                           Inr (Node nd_info (Some l') (Some r'), append_log UP st4)))))"
  by pat_completeness auto

lemma splitter_did_split_gate:
  "splitter env cfg nd st = Inr (result, st1) \<Longrightarrow> did_split result
     \<Longrightarrow> int (depth (info nd)) < max_depth cfg"
  by (auto simp: splitter_def no_split_def split: option.splits if_splits)

lemma create_node_depth:
  "create_node env cfg X y dep st = Inr (n, st') \<Longrightarrow> depth (info n) = dep"
  by (auto simp: create_node_def split: sum.splits)

lemma create_children_depth:
  "create_children env cfg nd result st = Inr ((i, l, r), st2) \<Longrightarrow>
     depth (info l) = depth (info nd) + 1 \<and> depth (info r) = depth (info nd) + 1"
  by (auto simp: create_children_def split: sum.splits option.splits dest!: create_node_depth)

text \<open>A split happens only below \<open>max_depth\<close> and the children are one level deeper,
  so the distance to \<open>max_depth\<close> decreases.\<close>

termination split_traverse_node
proof (relation "measure (\<lambda>(env, cfg, nd, st). nat (max_depth cfg - int (depth (info nd))))",
    goal_cases)
  case 1
  show ?case by simp
next
  case (2 env cfg nd st x result st1 y2 trip st2 nd_info lr l r)
  then show ?case
    using splitter_did_split_gate[of env cfg nd st result st1]
      create_children_depth[of env cfg nd result st1 nd_info l r st2]
    by auto
next
  case (3 env cfg nd st x result st1 y2 trip st2 nd_info lr l r)
  then show ?case
    using splitter_did_split_gate[of env cfg nd st result st1]
      create_children_depth[of env cfg nd result st1 nd_info l r st2]
    by auto
qed

text \<open>The object: the constructor's settings, \<open>self.tree\<close> and \<open>self.log\<close>.\<close>

record 'p polytree =
  settings :: config
  tree :: "'p node option"
  tree_log :: "'p event list"

definition init :: "config \<Rightarrow> 'p polytree" where
  "init cfg = \<lparr>settings = cfg, tree = None, tree_log = []\<rparr>"

definition build_tree ::
  "'p collaborators \<Rightarrow> config \<Rightarrow> 'p event list \<Rightarrow> ndarray \<Rightarrow> real list
     \<Rightarrow> error + ('p node \<times> 'p build_state)" where
  "build_tree env cfg lg X y =
     (case create_node env cfg X y 0 \<lparr>index_node_global = 0, self_log = lg\<rparr> of
        Inl e \<Rightarrow> Inl e
      | Inr (root_node, st) \<Rightarrow> split_traverse_node env cfg root_node st)"

definition fit ::
  "'p collaborators \<Rightarrow> 'p polytree \<Rightarrow> ndarray \<Rightarrow> real list \<Rightarrow> error + 'p polytree" where
  "fit env self X y =
     (case build_tree env (settings self) (tree_log self) X y of
        Inl e \<Rightarrow> Inl e
      | Inr (root_node, st) \<Rightarrow> Inr (self\<lparr>tree := Some root_node, tree_log := self_log st\<rparr>))"

section \<open>Prediction\<close>

text \<open>\<open>_predict\<close>: the query point \<open>x\<close> is one row; the leaf's polynomial is evaluated at
  the array holding that row alone and entry \<open>0\<close> of the result is returned.\<close>

fun predict_node :: "'p collaborators \<Rightarrow> 'p node \<Rightarrow> real list \<Rightarrow> error + real" where
  "predict_node env (Node i l r) x =
     (if l = None \<and> r = None then
        (case get_polyfit env (poly i) \<lparr>ncols = length x, rows = [x]\<rparr> of
           Inl e \<Rightarrow> Inl e
         | Inr [] \<Rightarrow> Inl IndexError
         | Inr (v # vs) \<Rightarrow> Inr v)
      else
        (case j_feature i of
           None \<Rightarrow> Inl TypeError
         | Some j \<Rightarrow>
             if length x \<le> j then Inl IndexError
             else
               (case threshold i of
                  None \<Rightarrow> Inl TypeError
                | Some t \<Rightarrow>
                    if x ! j \<le> t then
                      (case l of None \<Rightarrow> Inl TypeError | Some c \<Rightarrow> predict_node env c x)
                    else
                      (case r of None \<Rightarrow> Inl TypeError | Some c \<Rightarrow> predict_node env c x))))"

fun predict_rows :: "'p collaborators \<Rightarrow> 'p node \<Rightarrow> real list list \<Rightarrow> error + real list" where
  "predict_rows env root_node [] = Inr []"
| "predict_rows env root_node (x # xs) =
     (case predict_node env root_node x of
        Inl e \<Rightarrow> Inl e
      | Inr v \<Rightarrow>
          (case predict_rows env root_node xs of
             Inl e \<Rightarrow> Inl e
           | Inr vs \<Rightarrow> Inr (v # vs)))"

definition predict :: "'p collaborators \<Rightarrow> 'p polytree \<Rightarrow> ndarray \<Rightarrow> error + real list" where
  "predict env self X =
     (case tree self of
        None \<Rightarrow> Inl AssertionError
      | Some root_node \<Rightarrow> predict_rows env root_node (rows X))"

section \<open>Stand-ins for running the model\<close>

text \<open>The default arguments of the constructor.\<close>

definition default_config :: config where
  "default_config =
     \<lparr>max_depth = 5, min_samples_leaf = 10, order = 3, basis = ''tensor-grid'',
      search = ''exhaustive'', samples = 10, logging = False\<rparr>"

text \<open>Evenly spaced values computed without rounding; it raises on a negative count as
  \<open>np.linspace\<close> does. It is used only to run the model on concrete data.\<close>

definition exact_linspace :: "real \<Rightarrow> real \<Rightarrow> int \<Rightarrow> error + real list" where
  "exact_linspace start stop num =
     (if num < 0 then Inl ValueError
      else let n = nat num in
        if n = 0 then Inr []
        else if n = 1 then Inr [start]
        else Inr ((map (\<lambda>i. start + real i * ((stop - start) / real (n - 1))) [0..<n])
                    [n - 1 := stop]))"

text \<open>A stand-in for the collaborators, used to run the model on concrete data: the
  fitted model is the mean of the outputs, and fitting fails on empty outputs.\<close>

definition mean_model :: "real collaborators" where
  "mean_model =
     \<lparr>Poly = (\<lambda>ord bas ps X y.
                if y = [] then Inl FitFailure else Inr (sum_list y / real (length y))),
      get_polyfit = (\<lambda>p X. Inr (replicate (length (rows X)) p)),
      np_linspace = exact_linspace\<rparr>"

section \<open>Properties\<close>

text \<open>
  C8. Calling \<open>predict\<close> on an object whose tree was never built (\<open>self.tree\<close> is
  \<open>None\<close>, as the constructor leaves it) fails with the assertion's error, whatever the
  input array and whatever the collaborators are.
\<close>

theorem predict_before_fit_fails:
  "predict env (init cfg) X = Inl AssertionError
     \<and> predict env (self\<lparr>tree := None\<rparr>) X = Inl AssertionError"
  by (simp add: predict_def init_def)

lemma idx_right_compl:
  "filter (\<lambda>i. i \<notin> set (filter P [0..<n])) [0..<n] = filter (\<lambda>i. \<not> P i) [0..<n]"
  by (rule filter_cong) auto

lemma idx_column:
  "filter (\<lambda>i. column X j ! i \<le> t) [0..<length (rows X)]
     = filter (\<lambda>i. rows X ! i ! j \<le> t) [0..<length (rows X)]"
  by (rule filter_cong) (auto simp: column_def)

lemma take_filtered:
  "map (\<lambda>i. xs ! i) (filter (\<lambda>i. P (xs ! i)) [0..<length xs]) = filter P xs"
proof -
  have "filter P xs = filter P (map (\<lambda>i. xs ! i) [0..<length xs])"
    by (simp add: map_nth)
  also have "\<dots> = map (\<lambda>i. xs ! i) (filter (\<lambda>i. P (xs ! i)) [0..<length xs])"
    by (simp add: filter_map comp_def)
  finally show ?thesis by simp
qed

lemma take_entries_ok:
  "set idx \<subseteq> {..<length y} \<Longrightarrow> take_entries y idx = Inr (map (\<lambda>i. y ! i) idx)"
  by (auto simp: take_entries_def list_all_iff)

lemma take_entries_Inr:
  "take_entries y idx = Inr v \<Longrightarrow> v = map (\<lambda>i. y ! i) idx"
  by (auto simp: take_entries_def split: if_splits)

definition idx_left_of :: "ndarray \<Rightarrow> nat \<Rightarrow> real \<Rightarrow> nat list" where
  "idx_left_of X j t = filter (\<lambda>i. rows X ! i ! j \<le> t) [0..<length (rows X)]"

definition idx_right_of :: "ndarray \<Rightarrow> nat \<Rightarrow> real \<Rightarrow> nat list" where
  "idx_right_of X j t = filter (\<lambda>i. \<not> rows X ! i ! j \<le> t) [0..<length (rows X)]"

lemma split_data_alt:
  "split_data j t X y =
     (if ncols X \<le> j then Inl IndexError
      else
        (case take_entries y (idx_left_of X j t) of
           Inl e \<Rightarrow> Inl e
         | Inr y_left \<Rightarrow>
             (case take_entries y (idx_right_of X j t) of
                Inl e \<Rightarrow> Inl e
              | Inr y_right \<Rightarrow>
                  Inr ((take_rows X (idx_left_of X j t), y_left),
                       (take_rows X (idx_right_of X j t), y_right)))))"
proof -
  have 1: "filter (\<lambda>i. column X j ! i \<le> t) [0..<length (rows X)] = idx_left_of X j t"
    unfolding idx_left_of_def by (rule idx_column)
  have 2: "filter (\<lambda>i. i \<notin> set (idx_left_of X j t)) [0..<length (rows X)] = idx_right_of X j t"
    unfolding idx_left_of_def idx_right_of_def by (rule idx_right_compl)
  have 3: "length (idx_left_of X j t) + length (idx_right_of X j t) = length (rows X)"
    unfolding idx_left_of_def idx_right_of_def by (simp add: sum_length_filter_compl)
  show ?thesis
    unfolding split_data_def Let_def 1 2 using 3 by simp
qed

lemma split_data_Inr:
  assumes "split_data j t X y = Inr ((X_left, y_left), (X_right, y_right))"
  shows "j < ncols X"
    and "X_left = take_rows X (idx_left_of X j t)"
    and "X_right = take_rows X (idx_right_of X j t)"
    and "y_left = map (\<lambda>i. y ! i) (idx_left_of X j t)"
    and "y_right = map (\<lambda>i. y ! i) (idx_right_of X j t)"
  using assms
  by (auto simp: split_data_alt split: if_splits sum.splits dest: take_entries_Inr)

lemma split_data_ok:
  assumes "j < ncols X" "length (rows X) \<le> length y"
  shows "split_data j t X y =
     Inr ((take_rows X (idx_left_of X j t), map (\<lambda>i. y ! i) (idx_left_of X j t)),
          (take_rows X (idx_right_of X j t), map (\<lambda>i. y ! i) (idx_right_of X j t)))"
proof -
  have "take_entries y (idx_left_of X j t) = Inr (map (\<lambda>i. y ! i) (idx_left_of X j t))"
    using assms(2) by (intro take_entries_ok) (auto simp: idx_left_of_def)
  moreover have "take_entries y (idx_right_of X j t) = Inr (map (\<lambda>i. y ! i) (idx_right_of X j t))"
    using assms(2) by (intro take_entries_ok) (auto simp: idx_right_of_def)
  ultimately show ?thesis
    using assms(1) by (simp add: split_data_alt)
qed

lemma rows_take_left: "rows (take_rows X (idx_left_of X j t)) = filter (\<lambda>r. r ! j \<le> t) (rows X)"
  using take_filtered[of "rows X" "\<lambda>r. r ! j \<le> t"] by (simp add: take_rows_def idx_left_of_def)

lemma rows_take_right:
  "rows (take_rows X (idx_right_of X j t)) = filter (\<lambda>r. \<not> r ! j \<le> t) (rows X)"
  using take_filtered[of "rows X" "\<lambda>r. \<not> r ! j \<le> t"] by (simp add: take_rows_def idx_right_of_def)

lemma ncols_take_rows: "ncols (take_rows X idx) = ncols X"
  by (simp add: take_rows_def)







section \<open>Routing a query point\<close>

text \<open>The shape of a tree: a node is a leaf (no children, no split) or internal (two
  children, split feature and threshold set).\<close>

fun wf_tree :: "'p node \<Rightarrow> bool" where
  "wf_tree (Node i l r) =
     (case (l, r) of
        (None, None) \<Rightarrow> j_feature i = None \<and> threshold i = None
      | (Some lc, Some rc) \<Rightarrow>
          j_feature i \<noteq> None \<and> threshold i \<noteq> None \<and> wf_tree lc \<and> wf_tree rc
      | _ \<Rightarrow> False)"

text \<open>Every split feature of the tree is a position of a query point of length \<open>d\<close>.\<close>

fun features_below :: "nat \<Rightarrow> 'p node \<Rightarrow> bool" where
  "features_below d (Node i l r) =
     ((case j_feature i of None \<Rightarrow> True | Some j \<Rightarrow> j < d)
      \<and> (case l of None \<Rightarrow> True | Some lc \<Rightarrow> features_below d lc)
      \<and> (case r of None \<Rightarrow> True | Some rc \<Rightarrow> features_below d rc))"

text \<open>The walk the specification describes: while the node is internal, go left when
  the point's entry at the split feature is at most the threshold and right otherwise.\<close>

fun reached_leaf :: "'p node \<Rightarrow> real list \<Rightarrow> 'p node" where
  "reached_leaf (Node i l r) x =
     (case (l, r) of
        (Some lc, Some rc) \<Rightarrow>
          if x ! the (j_feature i) \<le> the (threshold i) then reached_leaf lc x
          else reached_leaf rc x
      | _ \<Rightarrow> Node i l r)"

text \<open>Evaluating a leaf's polynomial at one point.\<close>

definition eval_leaf :: "'p collaborators \<Rightarrow> 'p node \<Rightarrow> real list \<Rightarrow> error + real" where
  "eval_leaf env nd x =
     (case get_polyfit env (poly (info nd)) \<lparr>ncols = length x, rows = [x]\<rparr> of
        Inl e \<Rightarrow> Inl e
      | Inr [] \<Rightarrow> Inl IndexError
      | Inr (v # vs) \<Rightarrow> Inr v)"

lemma reached_leaf_is_leaf:
  "wf_tree nd \<Longrightarrow> left (reached_leaf nd x) = None \<and> right (reached_leaf nd x) = None"
  by (induction nd x rule: reached_leaf.induct) (auto split: option.splits)

lemma predict_node_reached_leaf:
  "wf_tree nd \<Longrightarrow> features_below (length x) nd
     \<Longrightarrow> predict_node env nd x = eval_leaf env (reached_leaf nd x) x"
  by (induction nd x rule: reached_leaf.induct)
    (auto simp: eval_leaf_def split: option.splits)

lemma predict_rows_Inr_iff:
  "(predict_rows env nd xs = Inr ys) =
     (length ys = length xs \<and> (\<forall>i<length xs. predict_node env nd (xs ! i) = Inr (ys ! i)))"
proof (induction xs arbitrary: ys)
  case Nil
  then show ?case by auto
next
  case (Cons x xs)
  show ?case
  proof (cases ys)
    case Nil
    then show ?thesis by (auto split: sum.splits)
  next
    case (Cons v vs)
    have "(predict_rows env nd (x # xs) = Inr (v # vs))
            = (predict_node env nd x = Inr v \<and> predict_rows env nd xs = Inr vs)"
      by (auto split: sum.splits)
    then show ?thesis
      unfolding Cons by (auto simp: Cons.IH[of vs] All_less_Suc2)
  qed
qed

text \<open>
  C7. On a well-shaped tree whose split features are positions of the query point,
  \<open>_predict\<close> returns the polynomial of the leaf that the walk from the root reaches,
  evaluated at the point: at every internal node the walk goes left when the point's
  entry at the split feature is at most the threshold and right otherwise. For an array
  of points \<open>predict\<close> succeeds exactly when every row does, and then entry \<open>i\<close> of the
  result is the prediction for row \<open>i\<close>.
\<close>

theorem predict_routes_to_leaf:
  assumes "tree self = Some nd"
  shows "(wf_tree nd \<and> features_below (length x) nd \<longrightarrow>
            predict_node env nd x = eval_leaf env (reached_leaf nd x) x
          \<and> left (reached_leaf nd x) = None \<and> right (reached_leaf nd x) = None)
       \<and> (predict env self X = Inr ys) =
            (length ys = length (rows X)
             \<and> (\<forall>i<length (rows X). predict_node env nd (rows X ! i) = Inr (ys ! i)))"
  using assms
  by (simp add: predict_def predict_rows_Inr_iff predict_node_reached_leaf reached_leaf_is_leaf)

definition example_leaf :: "nat \<Rightarrow> real \<Rightarrow> real node" where
  "example_leaf ix p =
     Node \<lparr>name = ''node'', index = ix, loss = Fin 0, poly = p, data = None, n_samples = 2,
           j_feature = None, threshold = None, depth = 1\<rparr> None None"

definition example_tree :: "real node" where
  "example_tree =
     Node \<lparr>name = ''node'', index = 1, loss = Fin 25, poly = 15, data = None, n_samples = 4,
           j_feature = Some 0, threshold = Some 1, depth = 0\<rparr>
       (Some (example_leaf 7 10)) (Some (example_leaf 9 20))"

theorem predict_routes_to_leaf_witness:
  "predict mean_model \<lparr>settings = default_config, tree = Some example_tree, tree_log = []\<rparr>
       \<lparr>ncols = 1, rows = [[3], [1], [0]]\<rparr> = Inr [20, 10, 10]
   \<and> predict_node mean_model example_tree [3] = eval_leaf mean_model (example_leaf 9 20) [3]"
proof -
  let ?self = "\<lparr>settings = default_config, tree = Some example_tree, tree_log = []\<rparr>"
  let ?X = "\<lparr>ncols = 1, rows = [[3], [1], [0]]\<rparr>"
  have t: "tree ?self = Some example_tree" by simp
  have w: "wf_tree example_tree \<and> features_below (length [3::real]) example_tree"
    by (simp add: example_tree_def example_leaf_def)
  have r: "reached_leaf example_tree [3] = example_leaf 9 20"
    by (simp add: example_tree_def example_leaf_def)
  have p: "length [20, 10, 10 :: real] = length (rows ?X)
     \<and> (\<forall>i<length (rows ?X). predict_node mean_model example_tree (rows ?X ! i) = Inr ([20, 10, 10] ! i))"
    by (simp add: example_tree_def example_leaf_def mean_model_def All_less_Suc2 numeral_3_eq_3)
  from predict_routes_to_leaf[OF t, of "[3]" mean_model ?X "[20, 10, 10]"] w r p
  show ?thesis by simp
qed

section \<open>Split search as a search over candidates\<close>

text \<open>What \<open>_fit_poly\<close> returns does not depend on the counter or the log.\<close>

definition fit_result ::
  "'p collaborators \<Rightarrow> config \<Rightarrow> ndarray \<Rightarrow> real list \<Rightarrow> error + (float64 \<times> 'p)" where
  "fit_result env cfg X y =
     (case fit_poly env cfg X y \<lparr>index_node_global = 0, self_log = []\<rparr> of
        Inl e \<Rightarrow> Inl e
      | Inr (r, st) \<Rightarrow> Inr r)"

lemma fit_poly_fit_result:
  "fit_poly env cfg X y st =
     (case fit_result env cfg X y of Inl e \<Rightarrow> Inl e | Inr r \<Rightarrow> Inr (r, count_fit st))"
  by (simp add: fit_result_def fit_poly_def split: sum.splits)

text \<open>The weighted loss of a split, \<open>(N_left * loss_left + N_right * loss_right) / N\<close>.\<close>

definition weighted_loss :: "nat \<Rightarrow> float64 \<Rightarrow> nat \<Rightarrow> float64 \<Rightarrow> nat \<Rightarrow> float64" where
  "weighted_loss n_left loss_left n_right loss_right n =
     float_div_len (float_add (len_times_float n_left loss_left)
                      (len_times_float n_right loss_right)) n"

text \<open>The evaluation of one candidate \<open>(j, t)\<close>: an error, or nothing when a side has
  fewer than \<open>min_samples_leaf\<close> rows, or the weighted loss with the two polynomials and
  the two parts.\<close>

definition candidate ::
  "'p collaborators \<Rightarrow> config \<Rightarrow> ndarray \<Rightarrow> real list \<Rightarrow> nat \<Rightarrow> real
     \<Rightarrow> error + (float64 \<times> ('p \<times> 'p) \<times> ((ndarray \<times> real list) \<times> (ndarray \<times> real list))) option"
  where
  "candidate env cfg X y j t =
     (case split_data j t X y of
        Inl e \<Rightarrow> Inl e
      | Inr ((X_left, y_left), (X_right, y_right)) \<Rightarrow>
          if \<not> (min_samples_leaf cfg \<le> int (length (rows X_left))
                \<and> min_samples_leaf cfg \<le> int (length (rows X_right)))
          then Inr None
          else
            (case fit_result env cfg X_left y_left of
               Inl e \<Rightarrow> Inl e
             | Inr (loss_left, poly_left) \<Rightarrow>
                 (case fit_result env cfg X_right y_right of
                    Inl e \<Rightarrow> Inl e
                  | Inr (loss_right, poly_right) \<Rightarrow>
                      Inr (Some (weighted_loss (length (rows X_left)) loss_left
                                   (length (rows X_right)) loss_right (length (rows X)),
                                 (poly_left, poly_right),
                                 ((X_left, y_left), (X_right, y_right)))))))"

text \<open>The update of the best split by an accepted candidate.\<close>

definition accept ::
  "'p split_result \<Rightarrow> nat \<Rightarrow> real \<Rightarrow> float64 \<Rightarrow> ('p \<times> 'p)
     \<Rightarrow> ((ndarray \<times> real list) \<times> (ndarray \<times> real list)) \<Rightarrow> 'p split_result" where
  "accept best j t ls ps ds =
     best\<lparr>did_split := True, loss_best := ls, polys_best := Some ps, data_best := Some ds,
          j_feature_best := Some j, threshold_best := Some t\<rparr>"

definition log_candidate ::
  "config \<Rightarrow> bool \<Rightarrow> nat \<Rightarrow> real \<Rightarrow> float64 \<Rightarrow> ('p \<times> 'p) \<Rightarrow> 'p build_state \<Rightarrow> 'p build_state" where
  "log_candidate cfg better j t ls ps st =
     (if logging cfg
      then append_log (if better then BestSplit j t ls (fst ps) (snd ps)
                       else TrySplit j t ls (fst ps) (snd ps)) st
      else st)"

lemma try_threshold_candidate:
  "try_threshold env cfg X y j t (best, st) =
     (case candidate env cfg X y j t of
        Inl e \<Rightarrow> Inl e
      | Inr None \<Rightarrow> Inr (best, st)
      | Inr (Some (ls, ps, ds)) \<Rightarrow>
          Inr (if float_lt ls (loss_best best) then accept best j t ls ps ds else best,
               log_candidate cfg (float_lt ls (loss_best best)) j t ls ps
                 (count_fit (count_fit st))))"
  by (auto simp: try_threshold_def candidate_def fit_poly_fit_result weighted_loss_def
      accept_def log_candidate_def Let_def split: sum.splits prod.splits)

lemma float_lt_irrefl: "\<not> float_lt a a"
  by (cases a) auto

lemma float_lt_trans: "float_lt a b \<Longrightarrow> float_lt b c \<Longrightarrow> float_lt a c"
  by (cases a; cases b; cases c) auto

text \<open>The state of the search after the candidates in \<open>S\<close> have been tried, for a node
  with data \<open>(X, y)\<close> and loss \<open>L0\<close>: without a split the loss to beat is still \<open>L0\<close>; with
  a split the best loss is below \<open>L0\<close> and is the evaluation of the stored feature and
  threshold, which were tried; every tried candidate was evaluated without an error;
  no tried candidate has a loss below the best one, and one that equals it does not come
  before the stored one.\<close>

definition search_inv ::
  "'p collaborators \<Rightarrow> config \<Rightarrow> ndarray \<Rightarrow> real list \<Rightarrow> float64 \<Rightarrow> (nat \<times> real) set
     \<Rightarrow> 'p split_result \<Rightarrow> bool" where
  "search_inv env cfg X y L0 S best =
     ((\<not> did_split best \<longrightarrow> loss_best best = L0)
      \<and> (did_split best \<longrightarrow>
           float_lt (loss_best best) L0
           \<and> (\<exists>j t ps d. j_feature_best best = Some j \<and> threshold_best best = Some t
                 \<and> polys_best best = Some ps \<and> data_best best = Some d \<and> (j, t) \<in> S
                 \<and> candidate env cfg X y j t = Inr (Some (loss_best best, ps, d))))
      \<and> (\<forall>(j, t) \<in> S. \<exists>c. candidate env cfg X y j t = Inr c)
      \<and> (\<forall>(j, t) \<in> S. \<forall>ls ps d.
            candidate env cfg X y j t = Inr (Some (ls, ps, d)) \<longrightarrow>
              \<not> float_lt ls (loss_best best)
              \<and> (did_split best \<and> ls = loss_best best \<longrightarrow>
                   (\<exists>jb tb. j_feature_best best = Some jb \<and> threshold_best best = Some tb
                      \<and> (jb < j \<or> jb = j \<and> tb \<le> t)))))"

lemma search_inv_step:
  assumes step: "try_threshold env cfg X y j t (best, st) = Inr (best', st')"
    and inv: "search_inv env cfg X y L0 S best"
    and ord: "\<forall>(j', t') \<in> S. j' < j \<or> j' = j \<and> t' \<le> t"
  shows "search_inv env cfg X y L0 (insert (j, t) S) best'"
proof (cases "candidate env cfg X y j t")
  case (Inl e)
  with step show ?thesis by (simp add: try_threshold_candidate)
next
  case (Inr c)
  show ?thesis
  proof (cases c)
    case None
    with Inr step have "best' = best" by (simp add: try_threshold_candidate)
    with inv Inr None show ?thesis
      unfolding search_inv_def by auto
  next
    case (Some trip)
    obtain ls ps d where trip: "trip = (ls, ps, d)" by (cases trip) auto
    note c = Inr[unfolded Some trip]
    show ?thesis
    proof (cases "float_lt ls (loss_best best)")
      case False
      with c step have b: "best' = best" by (simp add: try_threshold_candidate)
      have tie: "\<exists>jb tb. j_feature_best best = Some jb \<and> threshold_best best = Some tb
                      \<and> (jb < j \<or> jb = j \<and> tb \<le> t)" if "did_split best"
      proof -
        from inv that obtain jb tb where
          "j_feature_best best = Some jb" "threshold_best best = Some tb" "(jb, tb) \<in> S"
          unfolding search_inv_def by blast
        with ord show ?thesis by auto
      qed
      show ?thesis
        unfolding b using inv c False tie
        unfolding search_inv_def by auto
    next
      case True
      with c step have b: "best' = accept best j t ls ps d" by (simp add: try_threshold_candidate)
      have lt0: "float_lt ls L0"
      proof (cases "did_split best")
        case True
        with inv have "float_lt (loss_best best) L0" unfolding search_inv_def by simp
        with \<open>float_lt ls (loss_best best)\<close> show ?thesis by (rule float_lt_trans)
      next
        case False
        with inv have "loss_best best = L0" unfolding search_inv_def by simp
        with \<open>float_lt ls (loss_best best)\<close> show ?thesis by simp
      qed
      have old: "\<not> float_lt ls' ls \<and> ls' \<noteq> ls"
        if "(j', t') \<in> S" "candidate env cfg X y j' t' = Inr (Some (ls', ps', d'))"
        for j' t' ls' ps' d'
      proof -
        from inv that have n: "\<not> float_lt ls' (loss_best best)"
          unfolding search_inv_def by blast
        then have "\<not> float_lt ls' ls"
          using float_lt_trans[OF _ True] by blast
        moreover have "ls' \<noteq> ls" using n True by auto
        ultimately show ?thesis by simp
      qed
      have 3: "\<forall>(j, t) \<in> insert (j, t) S. \<exists>c. candidate env cfg X y j t = Inr c"
        using inv c unfolding search_inv_def by auto
      have 4: "\<forall>(j', t') \<in> insert (j, t) S. \<forall>ls' ps' d'.
            candidate env cfg X y j' t' = Inr (Some (ls', ps', d')) \<longrightarrow>
              \<not> float_lt ls' ls \<and> (ls' = ls \<longrightarrow> (j < j' \<or> j = j' \<and> t \<le> t'))"
      proof (intro ballI, clarify)
        fix j' t' ls' ps' d'
        assume m: "(j', t') \<in> insert (j, t) S"
          and e: "candidate env cfg X y j' t' = Inr (Some (ls', ps', d'))"
        show "\<not> float_lt ls' ls \<and> (ls' = ls \<longrightarrow> (j < j' \<or> j = j' \<and> t \<le> t'))"
        proof (cases "(j', t') = (j, t)")
          case True
          with e c show ?thesis by (simp add: float_lt_irrefl)
        next
          case False
          with m have "(j', t') \<in> S" by auto
          from old[OF this e] show ?thesis by simp
        qed
      qed
      show ?thesis
        unfolding b search_inv_def
        using lt0 c 3 4 by (simp add: accept_def)
    qed
  qed
qed

lemma search_inv_threshold_loop:
  assumes "threshold_loop env cfg X y j ts (best, st) = Inr (best', st')"
    and "search_inv env cfg X y L0 S best"
    and "sorted ts"
    and "\<forall>(j', t') \<in> S. j' < j \<or> j' = j \<and> (\<forall>t \<in> set ts. t' \<le> t)"
  shows "search_inv env cfg X y L0 (S \<union> {j} \<times> set ts) best'"
  using assms
proof (induction ts arbitrary: best st S)
  case Nil
  then show ?case by simp
next
  case (Cons t ts)
  from Cons.prems(1) obtain b1 st1 where
    step: "try_threshold env cfg X y j t (best, st) = Inr (b1, st1)"
    and rest: "threshold_loop env cfg X y j ts (b1, st1) = Inr (best', st')"
    by (auto split: sum.splits)
  have ord1: "\<forall>(j', t') \<in> S. j' < j \<or> j' = j \<and> t' \<le> t"
    using Cons.prems(4) by auto
  have inv1: "search_inv env cfg X y L0 (insert (j, t) S) b1"
    by (rule search_inv_step[OF step Cons.prems(2) ord1])
  have ord2: "\<forall>(j', t') \<in> insert (j, t) S. j' < j \<or> j' = j \<and> (\<forall>u \<in> set ts. t' \<le> u)"
    using Cons.prems(3,4) by auto
  have "search_inv env cfg X y L0 (insert (j, t) S \<union> {j} \<times> set ts) best'"
    using Cons.IH[OF rest inv1 _ ord2] Cons.prems(3) by simp
  moreover have "insert (j, t) S \<union> {j} \<times> set ts = S \<union> {j} \<times> set (t # ts)"
    by auto
  ultimately show ?case by simp
qed

text \<open>The candidates of split search for the data \<open>X\<close>: every feature with every
  threshold visited for it.\<close>

definition candidates_of ::
  "'p collaborators \<Rightarrow> config \<Rightarrow> ndarray \<Rightarrow> nat set \<Rightarrow> (nat \<times> real) set" where
  "candidates_of env cfg X J =
     {(j, t). j \<in> J \<and> (\<exists>ts. sorted_threshold_search env cfg X j = Inr ts \<and> t \<in> set ts)}"

lemma sorted_threshold_search_sorted:
  "sorted_threshold_search env cfg X j = Inr ts \<Longrightarrow> sorted ts"
  by (auto simp: sorted_threshold_search_def split: sum.splits)

lemma search_inv_feature_loop:
  assumes "feature_loop env cfg X y js (best, st) = Inr (best', st')"
    and "search_inv env cfg X y L0 S best"
    and "sorted_wrt (<) js"
    and "\<forall>(j', t') \<in> S. \<forall>j \<in> set js. j' < j"
  shows "search_inv env cfg X y L0 (S \<union> candidates_of env cfg X (set js)) best'
         \<and> (\<forall>j \<in> set js. \<exists>ts. sorted_threshold_search env cfg X j = Inr ts)"
  using assms
proof (induction js arbitrary: best st S)
  case Nil
  then show ?case by (simp add: candidates_of_def)
next
  case (Cons j js)
  from Cons.prems(1) obtain ts b1 st1 where
    ts: "sorted_threshold_search env cfg X j = Inr ts"
    and inner: "threshold_loop env cfg X y j ts (best, st) = Inr (b1, st1)"
    and rest: "feature_loop env cfg X y js (b1, st1) = Inr (best', st')"
    by (auto split: sum.splits)
  have ord1: "\<forall>(j', t') \<in> S. j' < j \<or> j' = j \<and> (\<forall>t \<in> set ts. t' \<le> t)"
    using Cons.prems(4) by auto
  have inv1: "search_inv env cfg X y L0 (S \<union> {j} \<times> set ts) b1"
    by (rule search_inv_threshold_loop[OF inner Cons.prems(2)
          sorted_threshold_search_sorted[OF ts] ord1])
  have ord2: "\<forall>(j', t') \<in> S \<union> {j} \<times> set ts. \<forall>k \<in> set js. j' < k"
    using Cons.prems(3,4) by auto
  have srt: "sorted_wrt (<) js" using Cons.prems(3) by simp
  note ih = Cons.IH[OF rest inv1 srt ord2]
  have "{j} \<times> set ts \<union> candidates_of env cfg X (set js) = candidates_of env cfg X (set (j # js))"
    using ts by (auto simp: candidates_of_def)
  then have "S \<union> {j} \<times> set ts \<union> candidates_of env cfg X (set js)
             = S \<union> candidates_of env cfg X (set (j # js))"
    by auto
  with ih ts show ?case by auto
qed

lemma search_inv_no_split: "search_inv env cfg X y (loss (info nd)) {} (no_split nd n)"
  by (simp add: search_inv_def no_split_def)

text \<open>What split search returns for a node that holds the data \<open>(X, y)\<close>.\<close>

lemma splitter_search_inv:
  assumes "splitter env cfg nd st = Inr (result, st')"
    and "data (info nd) = Some (X, y)"
  shows "(int (depth (info nd)) < max_depth cfg \<longrightarrow>
            search_inv env cfg X y (loss (info nd)) (candidates_of env cfg X {..<ncols X}) result
            \<and> (\<forall>j < ncols X. \<exists>ts. sorted_threshold_search env cfg X j = Inr ts))
         \<and> (\<not> int (depth (info nd)) < max_depth cfg \<longrightarrow>
            result = no_split nd (length (rows X)) \<and> st' = st)"
proof (cases "int (depth (info nd)) < max_depth cfg")
  case True
  with assms have fl: "feature_loop env cfg X y [0..<ncols X] (no_split nd (length (rows X)), st)
                        = Inr (result, st')"
    by (simp add: splitter_def)
  have "sorted_wrt (<) [0..<ncols X]" by simp
  from search_inv_feature_loop[OF fl search_inv_no_split this]
  show ?thesis using True by (simp add: lessThan_atLeast0)
next
  case False
  with assms show ?thesis by (simp add: splitter_def)
qed

section \<open>Running the model with the mean as fitted model\<close>

definition mean :: "real list \<Rightarrow> real" where
  "mean ys = sum_list ys / real (length ys)"

definition mse_of :: "real list \<Rightarrow> real" where
  "mse_of ys = sum_list (map (\<lambda>v. (v - mean ys) * (v - mean ys)) ys) / real (length ys)"

lemma bounds_loop_ok: "rows X \<noteq> [] \<Longrightarrow> \<exists>ps. bounds_loop X js = Inr ps"
proof (induction js)
  case Nil
  then show ?case by simp
next
  case (Cons j js)
  then have "column X j \<noteq> []" by (simp add: column_def)
  then obtain a as where "column X j = a # as" by (cases "column X j") auto
  with Cons show ?case by auto
qed

lemma map2_sub_replicate:
  "map2 (\<lambda>a b. a - b) ys (replicate (length ys) m) = map (\<lambda>v. v - m) ys"
  by (induction ys) auto

lemma fit_result_mean_model:
  assumes "rows X \<noteq> []" "length y = length (rows X)"
  shows "fit_result mean_model cfg X y = Inr (Fin (mse_of y), mean y)"
proof -
  obtain ps where ps: "bounds_loop X [0..<ncols X] = Inr ps"
    using bounds_loop_ok[OF assms(1)] by blast
  have ne: "y \<noteq> []" using assms by auto
  have sub: "np_sub y (replicate (length (rows X)) (mean y)) = Inr (map (\<lambda>v. v - mean y) y)"
    using assms(2) map2_sub_replicate[of y "mean y"] by (simp add: np_sub_def)
  have p: "Poly mean_model (order cfg) (basis cfg) ps X y = Inr (mean y)"
    using ne by (simp add: mean_model_def mean_def)
  have g: "get_polyfit mean_model (mean y) X = Inr (replicate (length (rows X)) (mean y))"
    by (simp add: mean_model_def)
  have n: "length (rows X) \<noteq> 0" using assms(1) by simp
  show ?thesis
    using n assms(2)
    by (simp add: fit_result_def fit_poly_def ps p g sub mse_of_def comp_def)
qed

definition X3 :: ndarray where "X3 = \<lparr>ncols = 1, rows = [[0], [1], [2]]\<rparr>"
definition y3 :: "real list" where "y3 = [1, 0, 1]"
definition cfg3 :: config where
  "cfg3 = default_config\<lparr>max_depth := 1, min_samples_leaf := 1\<rparr>"

lemma upt3: "[0..<3] = [0, 1, 2]"
  by (simp add: upt_conv_Cons)

lemma split3_0:
  "split_data 0 0 X3 y3 = Inr ((\<lparr>ncols = 1, rows = [[0]]\<rparr>, [1]), (\<lparr>ncols = 1, rows = [[1], [2]]\<rparr>, [0, 1]))"
  by (simp add: split_data_alt X3_def y3_def idx_left_of_def idx_right_of_def upt3
      take_entries_def take_rows_def)

lemma cand3_0:
  "candidate mean_model cfg3 X3 y3 0 0 =
     Inr (Some (Fin (1 / 6), (1, 1 / 2),
                (\<lparr>ncols = 1, rows = [[0]]\<rparr>, [1]), (\<lparr>ncols = 1, rows = [[1], [2]]\<rparr>, [0, 1])))"
proof -
  have n: "length (rows X3) = 3" by (simp add: X3_def)
  show ?thesis
    by (simp add: candidate_def split3_0 cfg3_def default_config_def fit_result_mean_model
        weighted_loss_def mse_of_def mean_def n)
qed

section \<open>The recursion of the build\<close>

declare split_traverse_node.simps [simp del]

text \<open>Induction over a build that returned: either split search found no split and the
  node is returned as it is, or the two children were created and then traversed, the
  left one first.\<close>

lemma split_traverse_node_induct [consumes 1, case_names leaf split]:
  assumes run: "split_traverse_node env cfg nd st = Inr (nd', st')"
    and leaf: "\<And>nd st result st1.
        splitter env cfg nd st = Inr (result, st1) \<Longrightarrow> \<not> did_split result
          \<Longrightarrow> P nd st nd (append_log UP st1)"
    and split: "\<And>nd st result st1 nd_info l r st2 l' st3 r' st4.
        splitter env cfg nd st = Inr (result, st1) \<Longrightarrow> did_split result
          \<Longrightarrow> create_children env cfg nd result st1 = Inr ((nd_info, l, r), st2)
          \<Longrightarrow> split_traverse_node env cfg l
                (append_log (DOWN LEFT (j_feature_best result) (threshold_best result)) st2)
                = Inr (l', st3)
          \<Longrightarrow> P l (append_log (DOWN LEFT (j_feature_best result) (threshold_best result)) st2)
                l' st3
          \<Longrightarrow> split_traverse_node env cfg r
                (append_log (DOWN RIGHT (j_feature_best result) (threshold_best result)) st3)
                = Inr (r', st4)
          \<Longrightarrow> P r (append_log (DOWN RIGHT (j_feature_best result) (threshold_best result)) st3)
                r' st4
          \<Longrightarrow> P nd st (Node nd_info (Some l') (Some r')) (append_log UP st4)"
  shows "P nd st nd' st'"
proof -
  have "e = env \<longrightarrow> c = cfg \<longrightarrow>
          (\<forall>nd' st'. split_traverse_node env cfg nd st = Inr (nd', st') \<longrightarrow> P nd st nd' st')"
    for e c nd st
  proof (induction e c nd st rule: split_traverse_node.induct)
    case (1 e c nd st)
    show ?case
    proof (intro impI allI)
      fix nd' st'
      assume eq: "e = env" "c = cfg"
        and go: "split_traverse_node env cfg nd st = Inr (nd', st')"
      note IH = "1.IH"[unfolded eq]
      from go obtain result st1 where
        sp: "splitter env cfg nd st = Inr (result, st1)"
        by (auto simp: split_traverse_node.simps[of env cfg nd st] split: sum.splits)
      show "P nd st nd' st'"
      proof (cases "did_split result")
        case False
        with go sp have "nd' = nd" "st' = append_log UP st1"
          by (auto simp: split_traverse_node.simps[of env cfg nd st])
        with leaf[OF sp False] show ?thesis by simp
      next
        case True
        from go sp True obtain nd_info l r st2 where
          cc: "create_children env cfg nd result st1 = Inr ((nd_info, l, r), st2)"
          by (auto simp: split_traverse_node.simps[of env cfg nd st] split: sum.splits)
        let ?sl = "append_log (DOWN LEFT (j_feature_best result) (threshold_best result)) st2"
        from go sp True cc obtain l' st3 where
          tl: "split_traverse_node env cfg l ?sl = Inr (l', st3)"
          by (auto simp: split_traverse_node.simps[of env cfg nd st] split: sum.splits)
        let ?sr = "append_log (DOWN RIGHT (j_feature_best result) (threshold_best result)) st3"
        from go sp True cc tl obtain r' st4 where
          tr: "split_traverse_node env cfg r ?sr = Inr (r', st4)"
          and res: "nd' = Node nd_info (Some l') (Some r')" "st' = append_log UP st4"
          by (auto simp: split_traverse_node.simps[of env cfg nd st] split: sum.splits)
        have nn: "\<not> \<not> did_split result" using True by simp
        have pl: "P l ?sl l' st3"
          using IH(1)[OF sp refl nn cc refl refl refl] tl by simp
        have pr: "P r ?sr r' st4"
          using IH(2)[OF sp refl nn cc refl refl refl tl refl] tr by simp
        show ?thesis
          unfolding res by (rule split[OF sp True cc tl pl tr pr])
      qed
    qed
  qed
  with run show ?thesis by simp
qed

lemma candidate_Some:
  assumes "candidate env cfg X y j t = Inr (Some (ls, ps, d))"
  shows "\<exists>X_left y_left X_right y_right loss_left poly_left loss_right poly_right.
           d = ((X_left, y_left), (X_right, y_right))
         \<and> split_data j t X y = Inr d
         \<and> min_samples_leaf cfg \<le> int (length (rows X_left))
         \<and> min_samples_leaf cfg \<le> int (length (rows X_right))
         \<and> fit_result env cfg X_left y_left = Inr (loss_left, poly_left)
         \<and> fit_result env cfg X_right y_right = Inr (loss_right, poly_right)
         \<and> ps = (poly_left, poly_right)
         \<and> ls = weighted_loss (length (rows X_left)) loss_left
                  (length (rows X_right)) loss_right (length (rows X))"
  using assms
  by (auto simp: candidate_def split: sum.splits prod.splits if_splits)

lemma candidate_None:
  assumes "split_data j t X y = Inr ((X_left, y_left), (X_right, y_right))"
    and "\<not> (min_samples_leaf cfg \<le> int (length (rows X_left))
            \<and> min_samples_leaf cfg \<le> int (length (rows X_right)))"
  shows "candidate env cfg X y j t = Inr None"
  using assms by (auto simp: candidate_def)

lemma create_node_Inr:
  assumes "create_node env cfg X y dep st = Inr (n, st')"
  shows "\<exists>ls p. fit_result env cfg X y = Inr (ls, p)
           \<and> n = Node \<lparr>name = ''node'', index = index_node_global st + 1, loss = ls, poly = p,
                        data = Some (X, y), n_samples = length (rows X), j_feature = None,
                        threshold = None, depth = dep\<rparr> None None
           \<and> st' = st\<lparr>index_node_global := index_node_global st + 2\<rparr>"
  using assms
  by (auto simp: create_node_def fit_poly_fit_result count_fit_def split: sum.splits)

text \<open>A node as \<open>_create_node\<close> returns it for the data \<open>(X, y)\<close>.\<close>

definition fresh_node :: "'p node \<Rightarrow> ndarray \<Rightarrow> real list \<Rightarrow> bool" where
  "fresh_node nd X y =
     (left nd = None \<and> right nd = None \<and> data (info nd) = Some (X, y)
      \<and> j_feature (info nd) = None \<and> threshold (info nd) = None
      \<and> n_samples (info nd) = length (rows X))"

lemma create_node_fresh:
  "create_node env cfg X y dep st = Inr (n, st') \<Longrightarrow>
     fresh_node n X y \<and> depth (info n) = dep \<and> index (info n) = index_node_global st + 1
     \<and> index_node_global st' = index_node_global st + 2 \<and> self_log st' = self_log st
     \<and> (\<exists>p. fit_result env cfg X y = Inr (loss (info n), p))"
  by (drule create_node_Inr) (auto simp: fresh_node_def)

lemma create_children_Inr:
  assumes "create_children env cfg nd result st = Inr ((nd_info, l, r), st')"
  shows "\<exists>X_left y_left X_right y_right poly_left poly_right.
           data_best result = Some ((X_left, y_left), (X_right, y_right))
         \<and> polys_best result = Some (poly_left, poly_right)
         \<and> fresh_node l X_left y_left \<and> fresh_node r X_right y_right
         \<and> poly (info l) = poly_left \<and> poly (info r) = poly_right
         \<and> (\<exists>p. fit_result env cfg X_left y_left = Inr (loss (info l), p))
         \<and> (\<exists>p. fit_result env cfg X_right y_right = Inr (loss (info r), p))
         \<and> depth (info l) = depth (info nd) + 1 \<and> depth (info r) = depth (info nd) + 1
         \<and> index (info l) = index_node_global st + 1
         \<and> index (info r) = index_node_global st + 3
         \<and> index_node_global st' = index_node_global st + 4
         \<and> self_log st' = self_log st
         \<and> nd_info = (info nd)\<lparr>j_feature := j_feature_best result,
                                 threshold := threshold_best result, data := None\<rparr>"
proof -
  from assms obtain X_left y_left X_right y_right poly_left poly_right l0 st1 r0 where
    d: "data_best result = Some ((X_left, y_left), (X_right, y_right))"
    and p: "polys_best result = Some (poly_left, poly_right)"
    and cl: "create_node env cfg X_left y_left (depth (info nd) + 1) st = Inr (l0, st1)"
    and cr: "create_node env cfg X_right y_right (depth (info nd) + 1) st1 = Inr (r0, st')"
    and l: "l = Node ((info l0)\<lparr>poly := poly_left\<rparr>) (left l0) (right l0)"
    and r: "r = Node ((info r0)\<lparr>poly := poly_right\<rparr>) (left r0) (right r0)"
    and i: "nd_info = (info nd)\<lparr>j_feature := j_feature_best result,
                                 threshold := threshold_best result, data := None\<rparr>"
    by (auto simp: create_children_def split: option.splits sum.splits prod.splits)
  from create_node_fresh[OF cl] create_node_fresh[OF cr] d p l r i
  show ?thesis
    by (auto simp: fresh_node_def)
qed

section \<open>The rows of a built tree\<close>

text \<open>The rows a node holds: its own data when it is a leaf; the data of an internal
  node were deleted when it was split, and its rows are those of its children.\<close>

fun node_rows :: "'p node \<Rightarrow> real list list" where
  "node_rows (Node i l r) =
     (case (l, r) of
        (None, None) \<Rightarrow> (case data i of None \<Rightarrow> [] | Some (X, y) \<Rightarrow> rows X)
      | _ \<Rightarrow> (case l of None \<Rightarrow> [] | Some lc \<Rightarrow> node_rows lc)
              @ (case r of None \<Rightarrow> [] | Some rc \<Rightarrow> node_rows rc))"

text \<open>Every node counts its rows, and at every internal node the left child holds
  exactly the node's rows whose entry at the split feature is at most the threshold and
  the right child holds the others.\<close>

fun partitioned :: "'p node \<Rightarrow> bool" where
  "partitioned (Node i l r) =
     (n_samples i = length (node_rows (Node i l r))
      \<and> (case (l, r) of
           (Some lc, Some rc) \<Rightarrow>
             (\<exists>j t. j_feature i = Some j \<and> threshold i = Some t
                \<and> node_rows lc = filter (\<lambda>row. row ! j \<le> t) (node_rows (Node i l r))
                \<and> node_rows rc = filter (\<lambda>row. \<not> row ! j \<le> t) (node_rows (Node i l r)))
             \<and> n_samples (info lc) + n_samples (info rc) = n_samples i
             \<and> partitioned lc \<and> partitioned rc
         | _ \<Rightarrow> True))"

lemma fresh_node_rows: "fresh_node nd X y \<Longrightarrow> node_rows nd = rows X"
  by (cases nd) (auto simp: fresh_node_def)

lemma fresh_partitioned: "fresh_node nd X y \<Longrightarrow> partitioned nd"
  by (cases nd) (auto simp: fresh_node_def)

lemma splitter_did_split:
  assumes "splitter env cfg nd st = Inr (result, st')" "data (info nd) = Some (X, y)"
    "did_split result"
  shows "\<exists>j t ps d. j_feature_best result = Some j \<and> threshold_best result = Some t
           \<and> polys_best result = Some ps \<and> data_best result = Some d
           \<and> j < ncols X
           \<and> candidate env cfg X y j t = Inr (Some (loss_best result, ps, d))"
proof -
  from splitter_did_split_gate[OF assms(1,3)] have g: "int (depth (info nd)) < max_depth cfg" .
  with splitter_search_inv[OF assms(1,2)]
  have "search_inv env cfg X y (loss (info nd)) (candidates_of env cfg X {..<ncols X}) result"
    by simp
  with assms(3) show ?thesis
    unfolding search_inv_def candidates_of_def by auto
qed

lemma filter_append_parts:
  assumes "\<forall>x \<in> set xs. P x" "\<forall>x \<in> set ys. \<not> P x"
  shows "filter P (xs @ ys) = xs" "filter (\<lambda>x. \<not> P x) (xs @ ys) = ys"
  using assms by (auto simp: filter_id_conv filter_empty_conv)

lemma split_traverse_node_partitioned:
  assumes "split_traverse_node env cfg nd st = Inr (nd', st')"
  shows "fresh_node nd X y \<longrightarrow>
           partitioned nd' \<and> mset (node_rows nd') = mset (rows X)
           \<and> n_samples (info nd') = length (rows X)"
  using assms
proof (induction arbitrary: X y rule: split_traverse_node_induct)
  case (leaf nd st result st1)
  then show ?case
    by (auto simp: fresh_node_rows fresh_partitioned fresh_node_def)
next
  case (split nd st result st1 nd_info l r st2 l' st3 r' st4)
  show ?case
  proof
    assume f: "fresh_node nd X y"
    then have d: "data (info nd) = Some (X, y)" by (simp add: fresh_node_def)
    from splitter_did_split[OF split(1) d split(2)] obtain j t ps dd where
      jt: "j_feature_best result = Some j" "threshold_best result = Some t"
      and db: "data_best result = Some dd"
      and c: "candidate env cfg X y j t = Inr (Some (loss_best result, ps, dd))"
      by blast
    from candidate_Some[OF c] obtain X_left y_left X_right y_right where
      dd: "dd = ((X_left, y_left), (X_right, y_right))"
      and sd: "split_data j t X y = Inr ((X_left, y_left), (X_right, y_right))"
      by auto
    from create_children_Inr[OF split(3)] db dd have
      fl: "fresh_node l X_left y_left" and fr: "fresh_node r X_right y_right"
      and ni: "nd_info = (info nd)\<lparr>j_feature := j_feature_best result,
                                 threshold := threshold_best result, data := None\<rparr>"
      by auto
    from split.IH(1)[of X_left y_left] fl have
      pl: "partitioned l'" and ml: "mset (node_rows l') = mset (rows X_left)"
      and nl: "n_samples (info l') = length (rows X_left)" by auto
    from split.IH(2)[of X_right y_right] fr have
      pr: "partitioned r'" and mr: "mset (node_rows r') = mset (rows X_right)"
      and nr: "n_samples (info r') = length (rows X_right)" by auto
    note s = split_data_Inr[OF sd]
    have rl: "rows X_left = filter (\<lambda>row. row ! j \<le> t) (rows X)"
      by (simp add: s(2) rows_take_left)
    have rr: "rows X_right = filter (\<lambda>row. \<not> row ! j \<le> t) (rows X)"
      by (simp add: s(3) rows_take_right)
    have al: "\<forall>row \<in> set (node_rows l'). row ! j \<le> t"
      using mset_eq_setD[OF ml] by (simp add: rl)
    have ar: "\<forall>row \<in> set (node_rows r'). \<not> row ! j \<le> t"
      using mset_eq_setD[OF mr] by (simp add: rr)
    have len: "length (rows X_left) + length (rows X_right) = length (rows X)"
      by (simp add: rl rr sum_length_filter_compl)
    have ll: "length (node_rows l') = length (rows X_left)"
      using ml by (metis size_mset)
    have lr: "length (node_rows r') = length (rows X_right)"
      using mr by (metis size_mset)
    have ns: "n_samples nd_info = length (rows X)"
      using f by (simp add: ni fresh_node_def)
    have m: "mset (node_rows (Node nd_info (Some l') (Some r'))) = mset (rows X)"
      by (simp add: ml mr rl rr)
    have "partitioned (Node nd_info (Some l') (Some r'))"
      using pl pr nl nr len ll lr ns jt filter_append_parts[OF al ar]
      by (simp add: ni)
    with m ns show "partitioned (Node nd_info (Some l') (Some r'))
        \<and> mset (node_rows (Node nd_info (Some l') (Some r'))) = mset (rows X)
        \<and> n_samples (info (Node nd_info (Some l') (Some r'))) = length (rows X)"
      by simp
  qed
qed

section \<open>A build on three rows\<close>

definition root3 :: "real node" where
  "root3 =
     Node \<lparr>name = ''node'', index = 1, loss = Fin (2 / 9), poly = 2 / 3,
           data = Some (X3, y3), n_samples = 3, j_feature = None, threshold = None,
           depth = 0\<rparr> None None"

definition left3 :: "real node" where
  "left3 =
     Node \<lparr>name = ''node'', index = 7, loss = Fin 0, poly = 1,
           data = Some (\<lparr>ncols = 1, rows = [[0]]\<rparr>, [1]), n_samples = 1, j_feature = None,
           threshold = None, depth = 1\<rparr> None None"

definition right3 :: "real node" where
  "right3 =
     Node \<lparr>name = ''node'', index = 9, loss = Fin (1 / 4), poly = 1 / 2,
           data = Some (\<lparr>ncols = 1, rows = [[1], [2]]\<rparr>, [0, 1]), n_samples = 2,
           j_feature = None, threshold = None, depth = 1\<rparr> None None"

definition result3 :: "real split_result" where
  "result3 =
     \<lparr>did_split = True, loss_best = Fin (1 / 6), polys_best = Some (1, 1 / 2),
      data_best = Some ((\<lparr>ncols = 1, rows = [[0]]\<rparr>, [1]),
                        (\<lparr>ncols = 1, rows = [[1], [2]]\<rparr>, [0, 1])),
      j_feature_best = Some 0, threshold_best = Some 0, result_N = 3\<rparr>"

definition tree3 :: "real node" where
  "tree3 =
     Node \<lparr>name = ''node'', index = 1, loss = Fin (2 / 9), poly = 2 / 3,
           data = None, n_samples = 3, j_feature = Some 0, threshold = Some 0,
           depth = 0\<rparr> (Some left3) (Some right3)"

definition log3 :: "real event list" where
  "log3 = [DOWN LEFT (Some 0) (Some 0), UP, DOWN RIGHT (Some 0) (Some 0), UP, UP]"

lemma create_node_mean_model:
  assumes "rows X \<noteq> []" "length y = length (rows X)"
  shows "create_node mean_model cfg X y dep st =
     Inr (Node \<lparr>name = ''node'', index = index_node_global st + 1, loss = Fin (mse_of y),
                 poly = mean y, data = Some (X, y), n_samples = length (rows X),
                 j_feature = None, threshold = None, depth = dep\<rparr> None None,
          st\<lparr>index_node_global := index_node_global st + 2\<rparr>)"
  using assms
  by (simp add: create_node_def fit_poly_fit_result fit_result_mean_model count_fit_def)

lemma create_root3:
  "create_node mean_model cfg3 X3 y3 0 \<lparr>index_node_global = 0, self_log = []\<rparr>
     = Inr (root3, \<lparr>index_node_global = 2, self_log = []\<rparr>)"
proof -
  have "rows X3 \<noteq> []" "length y3 = length (rows X3)" by (simp_all add: X3_def y3_def)
  from create_node_mean_model[OF this]
  show ?thesis
    by (simp add: root3_def mse_of_def mean_def y3_def X3_def)
qed

lemma split3_1:
  "split_data 0 1 X3 y3 = Inr ((\<lparr>ncols = 1, rows = [[0], [1]]\<rparr>, [1, 0]), (\<lparr>ncols = 1, rows = [[2]]\<rparr>, [1]))"
  by (simp add: split_data_alt X3_def y3_def idx_left_of_def idx_right_of_def upt3
      take_entries_def take_rows_def)

lemma split3_2:
  "split_data 0 2 X3 y3 = Inr ((\<lparr>ncols = 1, rows = [[0], [1], [2]]\<rparr>, [1, 0, 1]), (\<lparr>ncols = 1, rows = []\<rparr>, []))"
  by (simp add: split_data_alt X3_def y3_def idx_left_of_def idx_right_of_def upt3
      take_entries_def take_rows_def)

lemma cand3_1:
  "candidate mean_model cfg3 X3 y3 0 1 =
     Inr (Some (Fin (1 / 6), (1 / 2, 1),
                (\<lparr>ncols = 1, rows = [[0], [1]]\<rparr>, [1, 0]), (\<lparr>ncols = 1, rows = [[2]]\<rparr>, [1])))"
proof -
  have n: "length (rows X3) = 3" by (simp add: X3_def)
  show ?thesis
    by (simp add: candidate_def split3_1 cfg3_def default_config_def fit_result_mean_model
        weighted_loss_def mse_of_def mean_def n)
qed

lemma cand3_2: "candidate mean_model cfg3 X3 y3 0 2 = Inr None"
  by (simp add: candidate_def split3_2 cfg3_def default_config_def)

lemma thresholds3: "sorted_threshold_search mean_model cfg3 X3 0 = Inr [0, 1, 2]"
  by (simp add: sorted_threshold_search_def threshold_search_def cfg3_def default_config_def
      column_def X3_def)

lemma splitter3:
  "splitter mean_model cfg3 root3 \<lparr>index_node_global = 2, self_log = []\<rparr>
     = Inr (result3, \<lparr>index_node_global = 6, self_log = []\<rparr>)"
proof -
  have g: "max_depth cfg3 = 1" "logging cfg3 = False"
    by (simp_all add: cfg3_def default_config_def)
  have n: "ncols X3 = 1" "length (rows X3) = 3" by (simp_all add: X3_def)
  show ?thesis
    by (simp add: splitter_def root3_def g n thresholds3 try_threshold_candidate
        cand3_0 cand3_1 cand3_2 no_split_def accept_def log_candidate_def count_fit_def
        result3_def)
qed

lemma children3:
  "create_children mean_model cfg3 root3 result3 \<lparr>index_node_global = 6, self_log = []\<rparr>
     = Inr ((\<lparr>name = ''node'', index = 1, loss = Fin (2 / 9), poly = 2 / 3,
              data = None, n_samples = 3, j_feature = Some 0, threshold = Some 0,
              depth = 0\<rparr>, left3, right3),
            \<lparr>index_node_global = 10, self_log = []\<rparr>)"
  by (simp add: create_children_def result3_def create_node_mean_model root3_def
      left3_def right3_def mse_of_def mean_def)

lemma splitter_at_max_depth:
  assumes "data (info nd) = Some (X, y)" "\<not> int (depth (info nd)) < max_depth cfg"
  shows "splitter env cfg nd st = Inr (no_split nd (length (rows X)), st)"
  using assms by (simp add: splitter_def)

lemma traverse_at_max_depth:
  assumes "data (info nd) = Some (X, y)" "\<not> int (depth (info nd)) < max_depth cfg"
  shows "split_traverse_node env cfg nd st = Inr (nd, append_log UP st)"
  by (simp add: split_traverse_node.simps[of env cfg nd st] splitter_at_max_depth[OF assms]
      no_split_def)

lemma traverse3:
  "split_traverse_node mean_model cfg3 root3 \<lparr>index_node_global = 2, self_log = []\<rparr>
     = Inr (tree3, \<lparr>index_node_global = 10, self_log = log3\<rparr>)"
proof -
  have g: "max_depth cfg3 = 1" by (simp add: cfg3_def default_config_def)
  have l: "split_traverse_node mean_model cfg3 left3 st = Inr (left3, append_log UP st)" for st
    by (rule traverse_at_max_depth[of _ "\<lparr>ncols = 1, rows = [[0]]\<rparr>" "[1]"])
      (simp_all add: left3_def g)
  have r: "split_traverse_node mean_model cfg3 right3 st = Inr (right3, append_log UP st)" for st
    by (rule traverse_at_max_depth[of _ "\<lparr>ncols = 1, rows = [[1], [2]]\<rparr>" "[0, 1]"])
      (simp_all add: right3_def g)
  have d: "did_split result3" "j_feature_best result3 = Some 0" "threshold_best result3 = Some 0"
    by (simp_all add: result3_def)
  show ?thesis
    by (simp add: split_traverse_node.simps[of mean_model cfg3 root3] splitter3 d children3 l r
        append_log_def tree3_def log3_def)
qed

lemma build3:
  "build_tree mean_model cfg3 [] X3 y3 = Inr (tree3, \<lparr>index_node_global = 10, self_log = log3\<rparr>)"
  by (simp add: build_tree_def create_root3 traverse3)

lemma fit3:
  "fit mean_model (init cfg3) X3 y3
     = Inr \<lparr>settings = cfg3, tree = Some tree3, tree_log = log3\<rparr>"
  by (simp add: fit_def init_def build3)




section \<open>Accepted splits\<close>

text \<open>The traversal changes a node's split fields, data and children only.\<close>


lemma traverse_cases:
  assumes "split_traverse_node env cfg nd st = Inr (nd', st')"
  obtains (leaf) result st1 where
      "splitter env cfg nd st = Inr (result, st1)" "\<not> did_split result"
      "nd' = nd" "st' = append_log UP st1"
  | (split) result st1 nd_info l r st2 l' st3 r' st4 where
      "splitter env cfg nd st = Inr (result, st1)" "did_split result"
      "create_children env cfg nd result st1 = Inr ((nd_info, l, r), st2)"
      "split_traverse_node env cfg l
         (append_log (DOWN LEFT (j_feature_best result) (threshold_best result)) st2)
         = Inr (l', st3)"
      "split_traverse_node env cfg r
         (append_log (DOWN RIGHT (j_feature_best result) (threshold_best result)) st3)
         = Inr (r', st4)"
      "nd' = Node nd_info (Some l') (Some r')" "st' = append_log UP st4"
proof -
  from assms obtain result st1 where
    sp: "splitter env cfg nd st = Inr (result, st1)"
    by (auto simp: split_traverse_node.simps[of env cfg nd st] split: sum.splits)
  show thesis
  proof (cases "did_split result")
    case False
    with assms sp have "nd' = nd" "st' = append_log UP st1"
      by (auto simp: split_traverse_node.simps[of env cfg nd st])
    with leaf[OF sp False] show ?thesis by simp
  next
    case True
    from assms sp True obtain nd_info l r st2 where
      cc: "create_children env cfg nd result st1 = Inr ((nd_info, l, r), st2)"
      by (auto simp: split_traverse_node.simps[of env cfg nd st] split: sum.splits)
    let ?sl = "append_log (DOWN LEFT (j_feature_best result) (threshold_best result)) st2"
    from assms sp True cc obtain l' st3 where
      tl: "split_traverse_node env cfg l ?sl = Inr (l', st3)"
      by (auto simp: split_traverse_node.simps[of env cfg nd st] split: sum.splits)
    let ?sr = "append_log (DOWN RIGHT (j_feature_best result) (threshold_best result)) st3"
    from assms sp True cc tl obtain r' st4 where
      tr: "split_traverse_node env cfg r ?sr = Inr (r', st4)"
      and res: "nd' = Node nd_info (Some l') (Some r')" "st' = append_log UP st4"
      by (auto simp: split_traverse_node.simps[of env cfg nd st] split: sum.splits)
    show ?thesis by (rule split[OF sp True cc tl tr res])
  qed
qed

lemma traverse_info:
  assumes "split_traverse_node env cfg nd st = Inr (nd', st')"
  shows "loss (info nd') = loss (info nd) \<and> n_samples (info nd') = n_samples (info nd)
         \<and> index (info nd') = index (info nd) \<and> depth (info nd') = depth (info nd)
         \<and> poly (info nd') = poly (info nd)"
  using assms
proof (cases rule: traverse_cases)
  case leaf
  then show ?thesis by simp
next
  case (split result st1 nd_info l r st2 l' st3 r' st4)
  from create_children_Inr[OF split(3)] split(6) show ?thesis by auto
qed

text \<open>What an accepted split is, for a node as \<open>_create_node\<close> returned it.\<close>

lemma split_step_facts:
  assumes sp: "splitter env cfg nd st = Inr (result, st1)"
    and ds: "did_split result"
    and cc: "create_children env cfg nd result st1 = Inr ((nd_info, l, r), st2)"
    and f: "fresh_node nd X y"
  shows "\<exists>j t X_left y_left X_right y_right loss_left poly_left loss_right poly_right.
           j_feature nd_info = Some j \<and> threshold nd_info = Some t \<and> j < ncols X
         \<and> split_data j t X y = Inr ((X_left, y_left), (X_right, y_right))
         \<and> min_samples_leaf cfg \<le> int (length (rows X_left))
         \<and> min_samples_leaf cfg \<le> int (length (rows X_right))
         \<and> fit_result env cfg X_left y_left = Inr (loss_left, poly_left)
         \<and> fit_result env cfg X_right y_right = Inr (loss_right, poly_right)
         \<and> fresh_node l X_left y_left \<and> fresh_node r X_right y_right
         \<and> loss (info l) = loss_left \<and> loss (info r) = loss_right
         \<and> poly (info l) = poly_left \<and> poly (info r) = poly_right
         \<and> loss_best result = weighted_loss (length (rows X_left)) loss_left
              (length (rows X_right)) loss_right (length (rows X))
         \<and> float_lt (loss_best result) (loss (info nd))
         \<and> int (depth (info nd)) < max_depth cfg
         \<and> depth (info l) = depth (info nd) + 1 \<and> depth (info r) = depth (info nd) + 1
         \<and> nd_info = (info nd)\<lparr>j_feature := Some j, threshold := Some t, data := None\<rparr>"
proof -
  from f have d: "data (info nd) = Some (X, y)" by (simp add: fresh_node_def)
  from splitter_did_split[OF sp d ds] obtain j t ps dd where
    jt: "j_feature_best result = Some j" "threshold_best result = Some t" "j < ncols X"
    and pb: "polys_best result = Some ps" and db: "data_best result = Some dd"
    and c: "candidate env cfg X y j t = Inr (Some (loss_best result, ps, dd))"
    by blast
  from candidate_Some[OF c] obtain X_left y_left X_right y_right loss_left poly_left
      loss_right poly_right where
    cs: "dd = ((X_left, y_left), (X_right, y_right))"
      "split_data j t X y = Inr dd"
      "min_samples_leaf cfg \<le> int (length (rows X_left))"
      "min_samples_leaf cfg \<le> int (length (rows X_right))"
      "fit_result env cfg X_left y_left = Inr (loss_left, poly_left)"
      "fit_result env cfg X_right y_right = Inr (loss_right, poly_right)"
      "ps = (poly_left, poly_right)"
      "loss_best result = weighted_loss (length (rows X_left)) loss_left
              (length (rows X_right)) loss_right (length (rows X))"
    by blast
  have g: "int (depth (info nd)) < max_depth cfg"
    by (rule splitter_did_split_gate[OF sp ds])
  with splitter_search_inv[OF sp d] ds have lt: "float_lt (loss_best result) (loss (info nd))"
    by (simp add: search_inv_def)
  from create_children_Inr[OF cc] db pb cs(1,5,6,7) jt
  show ?thesis
    using cs(2,3,4,8) lt g by (auto simp: cs(1))
qed

text \<open>At every internal node the weighted loss of the two children is below the node's
  own loss.\<close>

fun improving :: "'p node \<Rightarrow> bool" where
  "improving (Node i l r) =
     (case (l, r) of
        (Some lc, Some rc) \<Rightarrow>
          float_lt (weighted_loss (n_samples (info lc)) (loss (info lc))
                      (n_samples (info rc)) (loss (info rc)) (n_samples i)) (loss i)
          \<and> improving lc \<and> improving rc
      | _ \<Rightarrow> True)"

lemma fresh_improving: "fresh_node nd X y \<Longrightarrow> improving nd"
  by (cases nd) (auto simp: fresh_node_def)

lemma split_traverse_node_improving:
  assumes "split_traverse_node env cfg nd st = Inr (nd', st')"
  shows "fresh_node nd X y \<longrightarrow> improving nd'"
  using assms
proof (induction arbitrary: X y rule: split_traverse_node_induct)
  case (leaf nd st result st1)
  then show ?case by (simp add: fresh_improving)
next
  case (split nd st result st1 nd_info l r st2 l' st3 r' st4)
  show ?case
  proof
    assume f: "fresh_node nd X y"
    from split_step_facts[OF split(1,2,3) f] obtain j t X_left y_left X_right y_right
        loss_left loss_right where
      s: "fresh_node l X_left y_left" "fresh_node r X_right y_right"
        "loss (info l) = loss_left" "loss (info r) = loss_right"
        "loss_best result = weighted_loss (length (rows X_left)) loss_left
              (length (rows X_right)) loss_right (length (rows X))"
        "float_lt (loss_best result) (loss (info nd))"
        "nd_info = (info nd)\<lparr>j_feature := Some j, threshold := Some t, data := None\<rparr>"
      by blast
    note il = traverse_info[OF split(4)] and ir = traverse_info[OF split(5)]
    have n: "n_samples (info l) = length (rows X_left)" "n_samples (info r) = length (rows X_right)"
      "n_samples (info nd) = length (rows X)"
      using s(1,2) f by (simp_all add: fresh_node_def)
    from split.IH(1)[of X_left y_left] split.IH(2)[of X_right y_right] s(1,2)
    have "improving l'" "improving r'" by simp_all
    then show "improving (Node nd_info (Some l') (Some r'))"
      using s(3,4,5,6) il ir n by (simp add: s(7))
  qed
qed

text \<open>
  C1. In every tree that \<open>fit\<close> builds, at every internal node the weighted loss
  \<open>(n_left * loss_left + n_right * loss_right) / n\<close> of its two children is strictly below
  the node's own loss. Split search on a node with data \<open>(X, y)\<close> that reports a split
  reports a loss strictly below the node's loss; that loss is the weighted loss of the
  two sides of the reported feature and threshold; no candidate has a smaller weighted
  loss, and every candidate with the same weighted loss has a greater feature index, or
  the same feature index and a threshold that is not smaller. A candidate whose weighted
  loss equals the best loss so far leaves the best split so far as it is.
\<close>

theorem accepted_split_improves:
  "(fit env self X y = Inr self' \<longrightarrow> (\<exists>root_node. tree self' = Some root_node \<and> improving root_node))
   \<and> (splitter env cfg nd st = Inr (result, st') \<and> data (info nd) = Some (X, y)
        \<and> did_split result \<longrightarrow>
        float_lt (loss_best result) (loss (info nd))
        \<and> (\<exists>j t X_left y_left X_right y_right loss_left poly_left loss_right poly_right.
              j_feature_best result = Some j \<and> threshold_best result = Some t
            \<and> data_best result = Some ((X_left, y_left), (X_right, y_right))
            \<and> polys_best result = Some (poly_left, poly_right)
            \<and> split_data j t X y = Inr ((X_left, y_left), (X_right, y_right))
            \<and> fit_result env cfg X_left y_left = Inr (loss_left, poly_left)
            \<and> fit_result env cfg X_right y_right = Inr (loss_right, poly_right)
            \<and> loss_best result = weighted_loss (length (rows X_left)) loss_left
                 (length (rows X_right)) loss_right (length (rows X))
            \<and> (\<forall>(j', t') \<in> candidates_of env cfg X {..<ncols X}. \<forall>ls ps d.
                  candidate env cfg X y j' t' = Inr (Some (ls, ps, d)) \<longrightarrow>
                    \<not> float_lt ls (loss_best result)
                    \<and> (ls = loss_best result \<longrightarrow> j < j' \<or> j = j' \<and> t \<le> t'))))
   \<and> (candidate env cfg X y jc tc = Inr (Some (lsc, psc, dc)) \<and> lsc = loss_best best \<longrightarrow>
        (\<exists>st''. try_threshold env cfg X y jc tc (best, st) = Inr (best, st'')))"
proof (intro conjI impI)
  assume "fit env self X y = Inr self'"
  then obtain root_node nd st0 st1 where
    c: "create_node env (settings self) X y 0 \<lparr>index_node_global = 0, self_log = tree_log self\<rparr>
          = Inr (nd, st0)"
    and t: "split_traverse_node env (settings self) nd st0 = Inr (root_node, st1)"
    and s: "self' = self\<lparr>tree := Some root_node, tree_log := self_log st1\<rparr>"
    by (auto simp: fit_def build_tree_def split: sum.splits)
  from create_node_fresh[OF c] split_traverse_node_improving[OF t, of X y] s
  show "\<exists>root_node. tree self' = Some root_node \<and> improving root_node" by simp
next
  assume a: "splitter env cfg nd st = Inr (result, st') \<and> data (info nd) = Some (X, y)
        \<and> did_split result"
  then have sp: "splitter env cfg nd st = Inr (result, st')"
    and d: "data (info nd) = Some (X, y)" and ds: "did_split result" by simp_all
  have g: "int (depth (info nd)) < max_depth cfg"
    by (rule splitter_did_split_gate[OF sp ds])
  with splitter_search_inv[OF sp d]
  have inv: "search_inv env cfg X y (loss (info nd)) (candidates_of env cfg X {..<ncols X}) result"
    by simp
  from inv ds show "float_lt (loss_best result) (loss (info nd))"
    by (simp add: search_inv_def)
  from inv ds obtain j t ps dd where
    jt: "j_feature_best result = Some j" "threshold_best result = Some t"
    and pb: "polys_best result = Some ps" and db: "data_best result = Some dd"
    and c: "candidate env cfg X y j t = Inr (Some (loss_best result, ps, dd))"
    unfolding search_inv_def by blast
  from candidate_Some[OF c] obtain X_left y_left X_right y_right loss_left poly_left
      loss_right poly_right where
    cs: "dd = ((X_left, y_left), (X_right, y_right))"
      "split_data j t X y = Inr dd"
      "fit_result env cfg X_left y_left = Inr (loss_left, poly_left)"
      "fit_result env cfg X_right y_right = Inr (loss_right, poly_right)"
      "ps = (poly_left, poly_right)"
      "loss_best result = weighted_loss (length (rows X_left)) loss_left
              (length (rows X_right)) loss_right (length (rows X))"
    by blast
  have best: "\<forall>(j', t') \<in> candidates_of env cfg X {..<ncols X}. \<forall>ls ps d.
                  candidate env cfg X y j' t' = Inr (Some (ls, ps, d)) \<longrightarrow>
                    \<not> float_lt ls (loss_best result)
                    \<and> (ls = loss_best result \<longrightarrow> j < j' \<or> j = j' \<and> t \<le> t')"
    using inv ds jt unfolding search_inv_def by fastforce
  show "\<exists>j t X_left y_left X_right y_right loss_left poly_left loss_right poly_right.
              j_feature_best result = Some j \<and> threshold_best result = Some t
            \<and> data_best result = Some ((X_left, y_left), (X_right, y_right))
            \<and> polys_best result = Some (poly_left, poly_right)
            \<and> split_data j t X y = Inr ((X_left, y_left), (X_right, y_right))
            \<and> fit_result env cfg X_left y_left = Inr (loss_left, poly_left)
            \<and> fit_result env cfg X_right y_right = Inr (loss_right, poly_right)
            \<and> loss_best result = weighted_loss (length (rows X_left)) loss_left
                 (length (rows X_right)) loss_right (length (rows X))
            \<and> (\<forall>(j', t') \<in> candidates_of env cfg X {..<ncols X}. \<forall>ls ps d.
                  candidate env cfg X y j' t' = Inr (Some (ls, ps, d)) \<longrightarrow>
                    \<not> float_lt ls (loss_best result)
                    \<and> (ls = loss_best result \<longrightarrow> j < j' \<or> j = j' \<and> t \<le> t'))"
    using jt pb db cs best by (intro exI[of _ j] exI[of _ t]) auto
next
  assume "candidate env cfg X y jc tc = Inr (Some (lsc, psc, dc)) \<and> lsc = loss_best best"
  then show "\<exists>st''. try_threshold env cfg X y jc tc (best, st) = Inr (best, st'')"
    by (simp add: try_threshold_candidate float_lt_irrefl)
qed

theorem accepted_split_improves_witness:
  "fit mean_model (init cfg3) X3 y3 = Inr \<lparr>settings = cfg3, tree = Some tree3, tree_log = log3\<rparr>
   \<and> improving tree3
   \<and> splitter mean_model cfg3 root3 \<lparr>index_node_global = 2, self_log = []\<rparr>
        = Inr (result3, \<lparr>index_node_global = 6, self_log = []\<rparr>)
   \<and> float_lt (loss_best result3) (loss (info root3))
   \<and> loss_best result3 = Fin (1 / 6) \<and> loss (info root3) = Fin (2 / 9)
   \<and> threshold_best result3 = Some 0
   \<and> candidate mean_model cfg3 X3 y3 0 1 =
        Inr (Some (Fin (1 / 6), (1 / 2, 1),
                   (\<lparr>ncols = 1, rows = [[0], [1]]\<rparr>, [1, 0]), (\<lparr>ncols = 1, rows = [[2]]\<rparr>, [1])))
   \<and> (\<exists>st''. try_threshold mean_model cfg3 X3 y3 0 1
                 (result3, \<lparr>index_node_global = 2, self_log = []\<rparr>) = Inr (result3, st''))"
proof -
  have h: "data (info root3) = Some (X3, y3)" "did_split result3"
    "Fin (1 / 6) = loss_best result3"
    by (simp_all add: root3_def result3_def)
  note T = accepted_split_improves[where env = mean_model and self = "init cfg3"
      and X = X3 and y = y3
      and self' = "\<lparr>settings = cfg3, tree = Some tree3, tree_log = log3\<rparr>"
      and cfg = cfg3 and nd = root3 and st = "\<lparr>index_node_global = 2, self_log = []\<rparr>"
      and result = result3 and st' = "\<lparr>index_node_global = 6, self_log = []\<rparr>"
      and jc = 0 and tc = 1 and lsc = "Fin (1 / 6)" and psc = "(1 / 2, 1)"
      and dc = "((\<lparr>ncols = 1, rows = [[0], [1]]\<rparr>, [1, 0]), (\<lparr>ncols = 1, rows = [[2]]\<rparr>, [1]))"
      and best = result3]
  from T fit3 have 1: "improving tree3" by simp
  from T splitter3 h have 2: "float_lt (loss_best result3) (loss (info root3))" by blast
  from T cand3_1 h(3) have 3: "\<exists>st''. try_threshold mean_model cfg3 X3 y3 0 1
                 (result3, \<lparr>index_node_global = 2, self_log = []\<rparr>) = Inr (result3, st'')"
    by blast
  show ?thesis
    using 1 2 3 fit3 splitter3 cand3_1 by (simp add: result3_def root3_def)
qed

text \<open>Both children of every internal node have at least \<open>min_samples_leaf\<close> rows.\<close>

fun children_feasible :: "config \<Rightarrow> 'p node \<Rightarrow> bool" where
  "children_feasible cfg (Node i l r) =
     (case (l, r) of
        (Some lc, Some rc) \<Rightarrow>
          min_samples_leaf cfg \<le> int (n_samples (info lc))
          \<and> min_samples_leaf cfg \<le> int (n_samples (info rc))
          \<and> n_samples (info lc) = length (node_rows lc)
          \<and> n_samples (info rc) = length (node_rows rc)
          \<and> children_feasible cfg lc \<and> children_feasible cfg rc
      | _ \<Rightarrow> True)"

lemma fresh_children_feasible: "fresh_node nd X y \<Longrightarrow> children_feasible cfg nd"
  by (cases nd) (auto simp: fresh_node_def)

lemma partitioned_n_samples: "partitioned nd \<Longrightarrow> n_samples (info nd) = length (node_rows nd)"
  by (cases nd) simp

lemma split_traverse_node_feasible:
  assumes "split_traverse_node env cfg nd st = Inr (nd', st')"
  shows "fresh_node nd X y \<longrightarrow> children_feasible cfg nd'"
  using assms
proof (induction arbitrary: X y rule: split_traverse_node_induct)
  case (leaf nd st result st1)
  then show ?case by (simp add: fresh_children_feasible)
next
  case (split nd st result st1 nd_info l r st2 l' st3 r' st4)
  show ?case
  proof
    assume f: "fresh_node nd X y"
    from split_step_facts[OF split(1,2,3) f] obtain X_left y_left X_right y_right where
      s: "fresh_node l X_left y_left" "fresh_node r X_right y_right"
        "min_samples_leaf cfg \<le> int (length (rows X_left))"
        "min_samples_leaf cfg \<le> int (length (rows X_right))"
      by blast
    note il = traverse_info[OF split(4)] and ir = traverse_info[OF split(5)]
    have n: "n_samples (info l) = length (rows X_left)" "n_samples (info r) = length (rows X_right)"
      using s(1,2) by (simp_all add: fresh_node_def)
    have pl: "n_samples (info l') = length (node_rows l')"
      using split_traverse_node_partitioned[OF split(4), of X_left y_left] s(1)
        partitioned_n_samples[of l'] by blast
    have pr: "n_samples (info r') = length (node_rows r')"
      using split_traverse_node_partitioned[OF split(5), of X_right y_right] s(2)
        partitioned_n_samples[of r'] by blast
    from split.IH(1)[of X_left y_left] split.IH(2)[of X_right y_right] s(1,2)
    have "children_feasible cfg l'" "children_feasible cfg r'" by simp_all
    then show "children_feasible cfg (Node nd_info (Some l') (Some r'))"
      using s(3,4) il ir n pl pr by simp
  qed
qed

text \<open>
  C3. In every tree that \<open>fit\<close> builds, both children of every internal node hold at
  least \<open>min_samples_leaf\<close> rows. Split search that reports a split reports two parts,
  the result of splitting the node's data at the reported feature and threshold, with at
  least \<open>min_samples_leaf\<close> rows each. A candidate with a side of fewer rows leaves the
  best split, the counter and the log as they were, whatever the collaborators are: no
  polynomial is fitted for it.
\<close>

theorem accepted_split_feasible:
  "(fit env self X y = Inr self' \<longrightarrow>
      (\<exists>root_node. tree self' = Some root_node \<and> children_feasible (settings self) root_node))
   \<and> (splitter env cfg nd st = Inr (result, st') \<and> data (info nd) = Some (X, y)
        \<and> did_split result \<longrightarrow>
        (\<exists>j t X_left y_left X_right y_right.
              j_feature_best result = Some j \<and> threshold_best result = Some t
            \<and> data_best result = Some ((X_left, y_left), (X_right, y_right))
            \<and> split_data j t X y = Inr ((X_left, y_left), (X_right, y_right))
            \<and> min_samples_leaf cfg \<le> int (length (rows X_left))
            \<and> min_samples_leaf cfg \<le> int (length (rows X_right))))
   \<and> (split_data jc tc X y = Inr ((Xl, yl), (Xr, yr))
        \<and> \<not> (min_samples_leaf cfg \<le> int (length (rows Xl))
              \<and> min_samples_leaf cfg \<le> int (length (rows Xr))) \<longrightarrow>
        try_threshold env cfg X y jc tc (best, st) = Inr (best, st))"
proof (intro conjI impI)
  assume "fit env self X y = Inr self'"
  then obtain root_node nd st0 st1 where
    c: "create_node env (settings self) X y 0 \<lparr>index_node_global = 0, self_log = tree_log self\<rparr>
          = Inr (nd, st0)"
    and t: "split_traverse_node env (settings self) nd st0 = Inr (root_node, st1)"
    and s: "self' = self\<lparr>tree := Some root_node, tree_log := self_log st1\<rparr>"
    by (auto simp: fit_def build_tree_def split: sum.splits)
  from create_node_fresh[OF c] split_traverse_node_feasible[OF t, of X y] s
  show "\<exists>root_node. tree self' = Some root_node \<and> children_feasible (settings self) root_node"
    by simp
next
  assume a: "splitter env cfg nd st = Inr (result, st') \<and> data (info nd) = Some (X, y)
        \<and> did_split result"
  then have sp: "splitter env cfg nd st = Inr (result, st')"
    and d: "data (info nd) = Some (X, y)" and ds: "did_split result" by simp_all
  from splitter_did_split[OF sp d ds] obtain j t ps dd where
    jt: "j_feature_best result = Some j" "threshold_best result = Some t"
    and db: "data_best result = Some dd"
    and c: "candidate env cfg X y j t = Inr (Some (loss_best result, ps, dd))"
    by blast
  from candidate_Some[OF c] jt db
  show "\<exists>j t X_left y_left X_right y_right.
              j_feature_best result = Some j \<and> threshold_best result = Some t
            \<and> data_best result = Some ((X_left, y_left), (X_right, y_right))
            \<and> split_data j t X y = Inr ((X_left, y_left), (X_right, y_right))
            \<and> min_samples_leaf cfg \<le> int (length (rows X_left))
            \<and> min_samples_leaf cfg \<le> int (length (rows X_right))"
    by auto
next
  assume "split_data jc tc X y = Inr ((Xl, yl), (Xr, yr))
        \<and> \<not> (min_samples_leaf cfg \<le> int (length (rows Xl))
              \<and> min_samples_leaf cfg \<le> int (length (rows Xr)))"
  then have "candidate env cfg X y jc tc = Inr None"
    by (intro candidate_None) auto
  then show "try_threshold env cfg X y jc tc (best, st) = Inr (best, st)"
    by (simp add: try_threshold_candidate)
qed

text \<open>Collaborators that fail every fit.\<close>

definition failing_model :: "real collaborators" where
  "failing_model =
     \<lparr>Poly = (\<lambda>ord bas ps X y. Inl FitFailure),
      get_polyfit = (\<lambda>p X. Inl FitFailure),
      np_linspace = exact_linspace\<rparr>"

theorem accepted_split_feasible_witness:
  "fit mean_model (init cfg3) X3 y3 = Inr \<lparr>settings = cfg3, tree = Some tree3, tree_log = log3\<rparr>
   \<and> children_feasible cfg3 tree3
   \<and> min_samples_leaf cfg3 = 1 \<and> n_samples (info left3) = 1 \<and> n_samples (info right3) = 2
   \<and> splitter mean_model cfg3 root3 \<lparr>index_node_global = 2, self_log = []\<rparr>
        = Inr (result3, \<lparr>index_node_global = 6, self_log = []\<rparr>)
   \<and> data_best result3 = Some ((\<lparr>ncols = 1, rows = [[0]]\<rparr>, [1]),
                                (\<lparr>ncols = 1, rows = [[1], [2]]\<rparr>, [0, 1]))
   \<and> split_data 0 2 X3 y3
        = Inr ((\<lparr>ncols = 1, rows = [[0], [1], [2]]\<rparr>, [1, 0, 1]), (\<lparr>ncols = 1, rows = []\<rparr>, []))
   \<and> try_threshold failing_model cfg3 X3 y3 0 2 (result3, \<lparr>index_node_global = 6, self_log = []\<rparr>)
        = Inr (result3, \<lparr>index_node_global = 6, self_log = []\<rparr>)"
proof -
  have m: "min_samples_leaf cfg3 = 1" "settings (init cfg3 :: real polytree) = cfg3"
    by (simp_all add: cfg3_def default_config_def init_def)
  note T = accepted_split_feasible[where env = mean_model and self = "init cfg3"
      and X = X3 and y = y3
      and self' = "\<lparr>settings = cfg3, tree = Some tree3, tree_log = log3\<rparr>"]
  from T fit3 m have 1: "children_feasible cfg3 tree3" by simp
  note U = accepted_split_feasible[where env = failing_model and cfg = cfg3
      and X = X3 and y = y3 and jc = 0 and tc = 2
      and Xl = "\<lparr>ncols = 1, rows = [[0], [1], [2]]\<rparr>" and yl = "[1, 0, 1]"
      and Xr = "\<lparr>ncols = 1, rows = []\<rparr>" and yr = "[]"
      and best = result3 and st = "\<lparr>index_node_global = 6, self_log = []\<rparr>"]
  from U split3_2 m(1)
  have 2: "try_threshold failing_model cfg3 X3 y3 0 2
             (result3, \<lparr>index_node_global = 6, self_log = []\<rparr>)
           = Inr (result3, \<lparr>index_node_global = 6, self_log = []\<rparr>)"
    by simp
  show ?thesis
    using 1 2 fit3 splitter3 split3_2 m(1) by (simp add: result3_def left3_def right3_def)
qed

section \<open>Depth\<close>

text \<open>No node is deeper than \<open>max_depth\<close>, and a child is one level below its parent.\<close>

fun depth_bounded :: "config \<Rightarrow> 'p node \<Rightarrow> bool" where
  "depth_bounded cfg (Node i l r) =
     (int (depth i) \<le> max_depth cfg
      \<and> (case l of None \<Rightarrow> True
          | Some lc \<Rightarrow> depth (info lc) = depth i + 1 \<and> depth_bounded cfg lc)
      \<and> (case r of None \<Rightarrow> True
          | Some rc \<Rightarrow> depth (info rc) = depth i + 1 \<and> depth_bounded cfg rc))"

text \<open>No candidate for the data \<open>(X, y)\<close> that has enough rows on both sides has a
  weighted loss below \<open>L\<close>.\<close>

definition no_improving_split ::
  "'p collaborators \<Rightarrow> config \<Rightarrow> ndarray \<Rightarrow> real list \<Rightarrow> float64 \<Rightarrow> bool" where
  "no_improving_split env cfg X y L =
     (\<forall>(j, t) \<in> candidates_of env cfg X {..<ncols X}. \<forall>ls ps d.
        candidate env cfg X y j t = Inr (Some (ls, ps, d)) \<longrightarrow> \<not> float_lt ls L)"

text \<open>Every internal node is above \<open>max_depth\<close>; every leaf still holds its data and is at
  \<open>max_depth\<close> or has no improving split.\<close>

fun leaves_final :: "'p collaborators \<Rightarrow> config \<Rightarrow> 'p node \<Rightarrow> bool" where
  "leaves_final env cfg (Node i l r) =
     (case (l, r) of
        (None, None) \<Rightarrow>
          (\<exists>X y. data i = Some (X, y)
             \<and> (int (depth i) = max_depth cfg \<or> no_improving_split env cfg X y (loss i)))
      | (Some lc, Some rc) \<Rightarrow>
          int (depth i) < max_depth cfg \<and> leaves_final env cfg lc \<and> leaves_final env cfg rc
      | _ \<Rightarrow> False)"

lemma split_traverse_node_depth:
  assumes "split_traverse_node env cfg nd st = Inr (nd', st')"
  shows "fresh_node nd X y \<and> int (depth (info nd)) \<le> max_depth cfg \<longrightarrow>
           depth_bounded cfg nd' \<and> leaves_final env cfg nd'"
  using assms
proof (induction arbitrary: X y rule: split_traverse_node_induct)
  case (leaf nd st result st1)
  show ?case
  proof
    assume a: "fresh_node nd X y \<and> int (depth (info nd)) \<le> max_depth cfg"
    then have d: "data (info nd) = Some (X, y)" and c: "left nd = None" "right nd = None"
      by (simp_all add: fresh_node_def)
    have fin: "int (depth (info nd)) = max_depth cfg
               \<or> no_improving_split env cfg X y (loss (info nd))"
    proof (cases "int (depth (info nd)) < max_depth cfg")
      case True
      with splitter_search_inv[OF leaf(1) d] leaf(2)
      have "no_improving_split env cfg X y (loss (info nd))"
        unfolding search_inv_def no_improving_split_def by fastforce
      then show ?thesis by simp
    next
      case False
      with a show ?thesis by simp
    qed
    show "depth_bounded cfg nd \<and> leaves_final env cfg nd"
      using a c d fin by (cases nd) auto
  qed
next
  case (split nd st result st1 nd_info l r st2 l' st3 r' st4)
  show ?case
  proof
    assume a: "fresh_node nd X y \<and> int (depth (info nd)) \<le> max_depth cfg"
    then have f: "fresh_node nd X y" by simp
    from split_step_facts[OF split(1,2,3) f] obtain j t X_left y_left X_right y_right where
      s: "fresh_node l X_left y_left" "fresh_node r X_right y_right"
        "int (depth (info nd)) < max_depth cfg"
        "depth (info l) = depth (info nd) + 1" "depth (info r) = depth (info nd) + 1"
        "nd_info = (info nd)\<lparr>j_feature := Some j, threshold := Some t, data := None\<rparr>"
      by blast
    note il = traverse_info[OF split(4)] and ir = traverse_info[OF split(5)]
    have "int (depth (info l)) \<le> max_depth cfg" "int (depth (info r)) \<le> max_depth cfg"
      using s(3,4,5) by simp_all
    with split.IH(1)[of X_left y_left] split.IH(2)[of X_right y_right] s(1,2)
    have "depth_bounded cfg l'" "leaves_final env cfg l'"
      "depth_bounded cfg r'" "leaves_final env cfg r'" by simp_all
    then show "depth_bounded cfg (Node nd_info (Some l') (Some r'))
        \<and> leaves_final env cfg (Node nd_info (Some l') (Some r'))"
      using s(3,4,5) il ir by (simp add: s(6))
  qed
qed

text \<open>
  C4. Split search reports a split only for a node with \<open>0 \<le> depth < max_depth\<close>; for
  any other node it tries no candidate, whatever the node's data are: it returns "no
  split" with the counter and the log unchanged, and the traversal returns the node as
  a leaf. In every tree that \<open>fit\<close> builds with a \<open>max_depth\<close> that is not negative, the
  root has depth \<open>0\<close>, every child is one level below its parent, no node is deeper
  than \<open>max_depth\<close>, every internal node is above \<open>max_depth\<close>, and every leaf is at
  \<open>max_depth\<close> or no candidate with enough rows on both sides has a weighted loss below
  the leaf's loss.
\<close>

theorem depth_gate_and_bound:
  "(splitter env cfg nd st = Inr (result, st') \<and> did_split result \<longrightarrow>
      0 \<le> int (depth (info nd)) \<and> int (depth (info nd)) < max_depth cfg)
   \<and> (data (info nd) = Some (Xn, yn)
        \<and> \<not> (0 \<le> int (depth (info nd)) \<and> int (depth (info nd)) < max_depth cfg) \<longrightarrow>
        splitter env cfg nd st = Inr (no_split nd (length (rows Xn)), st)
        \<and> split_traverse_node env cfg nd st = Inr (nd, append_log UP st))
   \<and> (fit env self X y = Inr self' \<and> 0 \<le> max_depth (settings self) \<longrightarrow>
        (\<exists>root_node. tree self' = Some root_node \<and> depth (info root_node) = 0
           \<and> depth_bounded (settings self) root_node
           \<and> leaves_final env (settings self) root_node))"
proof (intro conjI impI)
  assume "splitter env cfg nd st = Inr (result, st') \<and> did_split result"
  then show "int (depth (info nd)) < max_depth cfg"
    using splitter_did_split_gate by blast
next
  assume a: "data (info nd) = Some (Xn, yn)
        \<and> \<not> (0 \<le> int (depth (info nd)) \<and> int (depth (info nd)) < max_depth cfg)"
  then show "splitter env cfg nd st = Inr (no_split nd (length (rows Xn)), st)"
    by (intro splitter_at_max_depth) auto
  from a show "split_traverse_node env cfg nd st = Inr (nd, append_log UP st)"
    by (intro traverse_at_max_depth[of _ Xn yn]) auto
next
  assume a: "fit env self X y = Inr self' \<and> 0 \<le> max_depth (settings self)"
  then obtain root_node nd st0 st1 where
    c: "create_node env (settings self) X y 0 \<lparr>index_node_global = 0, self_log = tree_log self\<rparr>
          = Inr (nd, st0)"
    and t: "split_traverse_node env (settings self) nd st0 = Inr (root_node, st1)"
    and s: "self' = self\<lparr>tree := Some root_node, tree_log := self_log st1\<rparr>"
    by (auto simp: fit_def build_tree_def split: sum.splits)
  from create_node_fresh[OF c] have f: "fresh_node nd X y" "depth (info nd) = 0" by simp_all
  with a split_traverse_node_depth[OF t, of X y] traverse_info[OF t] s
  show "\<exists>root_node. tree self' = Some root_node \<and> depth (info root_node) = 0
           \<and> depth_bounded (settings self) root_node
           \<and> leaves_final env (settings self) root_node"
    by simp
qed simp

theorem depth_gate_and_bound_witness:
  "fit mean_model (init cfg3) X3 y3 = Inr \<lparr>settings = cfg3, tree = Some tree3, tree_log = log3\<rparr>
   \<and> max_depth cfg3 = 1
   \<and> depth (info tree3) = 0 \<and> depth (info left3) = 1 \<and> depth (info right3) = 1
   \<and> depth_bounded cfg3 tree3 \<and> leaves_final mean_model cfg3 tree3
   \<and> splitter mean_model cfg3 right3 \<lparr>index_node_global = 10, self_log = []\<rparr>
       = Inr (no_split right3 2, \<lparr>index_node_global = 10, self_log = []\<rparr>)
   \<and> did_split result3
   \<and> splitter mean_model cfg3 root3 \<lparr>index_node_global = 2, self_log = []\<rparr>
        = Inr (result3, \<lparr>index_node_global = 6, self_log = []\<rparr>)
   \<and> int (depth (info root3)) < max_depth cfg3"
proof -
  have m: "max_depth cfg3 = 1" "settings (init cfg3 :: real polytree) = cfg3"
    by (simp_all add: cfg3_def default_config_def init_def)
  note T = depth_gate_and_bound[where env = mean_model and self = "init cfg3"
      and X = X3 and y = y3
      and self' = "\<lparr>settings = cfg3, tree = Some tree3, tree_log = log3\<rparr>"
      and cfg = cfg3 and nd = right3 and Xn = "\<lparr>ncols = 1, rows = [[1], [2]]\<rparr>"
      and yn = "[0, 1]" and st = "\<lparr>index_node_global = 10, self_log = []\<rparr>"]
  from T fit3 m have 1: "depth_bounded cfg3 tree3 \<and> leaves_final mean_model cfg3 tree3"
    by simp
  have "data (info right3) = Some (\<lparr>ncols = 1, rows = [[1], [2]]\<rparr>, [0, 1])"
    "\<not> int (depth (info right3)) < max_depth cfg3"
    by (simp_all add: right3_def m)
  with T have 2: "splitter mean_model cfg3 right3 \<lparr>index_node_global = 10, self_log = []\<rparr>
       = Inr (no_split right3 2, \<lparr>index_node_global = 10, self_log = []\<rparr>)"
    by (simp add: numeral_2_eq_2)
  note U = depth_gate_and_bound[where env = mean_model and cfg = cfg3 and nd = root3
      and st = "\<lparr>index_node_global = 2, self_log = []\<rparr>" and result = result3
      and st' = "\<lparr>index_node_global = 6, self_log = []\<rparr>"]
  have ds: "did_split result3" by (simp add: result3_def)
  with U splitter3 have 3: "int (depth (info root3)) < max_depth cfg3" by blast
  show ?thesis
    using 1 2 3 ds fit3 splitter3 m(1) by (simp add: tree3_def left3_def right3_def)
qed

end
